theory Spec2Isabelle
  imports Main
begin

section \<open>String primitives used by the router\<close>

text \<open>
  Routes are JavaScript strings. The router only compares them, tests a prefix and cuts
  a suffix, all unit by unit, so a route is modelled as a \<^typ>\<open>string\<close> (a list of
  code units).
\<close>

text \<open>\<^verbatim>\<open>str.startsWith(prefix)\<close>\<close>

definition startsWith :: "string \<Rightarrow> string \<Rightarrow> bool" where
  "startsWith str prefix = (take (length prefix) str = prefix)"

text \<open>
  \<^verbatim>\<open>str.lastIndexOf(c)\<close> for a one-unit search string: the greatest index holding
  \<open>c\<close>, or \<open>-1\<close> when there is none.
\<close>

fun lastIndexOf :: "string \<Rightarrow> char \<Rightarrow> int" where
  "lastIndexOf [] c = - 1"
| "lastIndexOf (x # xs) c =
     (let r = lastIndexOf xs c
      in if 0 \<le> r then r + 1 else if x = c then 0 else - 1)"

text \<open>
  \<^verbatim>\<open>str.substring(start)\<close>: a negative start counts as 0, a start beyond the end as
  the length.
\<close>

definition substring :: "string \<Rightarrow> int \<Rightarrow> string" where
  "substring str start = drop (nat (min (max start 0) (int (length str)))) str"

section \<open>The browser state the router acts on\<close>

text \<open>
  An element made by \<^verbatim>\<open>document.createElement\<close>: its identity, its tag name and the
  one data attribute the router sets, \<^verbatim>\<open>dataset.productId\<close>.
\<close>

record element =
  elem_id :: nat
  tagName :: string
  productId :: "string option"

text \<open>The state object \<^verbatim>\<open>{ route }\<close> of a history entry, and the entry itself.\<close>

datatype history_state = HistoryState (state_route: string)

record history_entry =
  entry_state :: "history_state option"
  entry_url :: string

text \<open>
  An entry of the runtime's module map, keyed by module specifier: the load is in
  flight, or it has ended with the module (named by a number) or with an error.
\<close>

datatype module_status = Fetching | Evaluated nat | Errored

text \<open>The effects of the router, in the order they happen.\<close>

datatype effect =
    PushState string
  | SetMetadata string string
  | FetchModule string
  | ModuleSettled string "nat option"
  | AwaitReturned string "nat option"
  | CreateElement nat string
  | StartViewTransition nat
  | ChangePage nat
  | AssignScrollX

text \<open>Kinds of effects: a history push; the creation of an element; a swap of the
  display slot, done or handed to a view transition.\<close>

fun is_push :: "effect \<Rightarrow> bool" where
  "is_push (PushState r) = True"
| "is_push e = False"

fun is_create :: "effect \<Rightarrow> bool" where
  "is_create (CreateElement k t) = True"
| "is_create e = False"

fun is_swap :: "effect \<Rightarrow> bool" where
  "is_swap (ChangePage k) = True"
| "is_swap (StartViewTransition k) = True"
| "is_swap e = False"

datatype error = ImportFailed string | TypeError | SecurityError

text \<open>How the promise of the asynchronous \<^verbatim>\<open>Router.go\<close> ends.\<close>

datatype outcome = Fulfilled | Rejected error

text \<open>
  \<^item> \<open>history\<close>: the entries pushed on the session history, the latest last;
  \<^item> \<open>rewritable\<close>: for a URL string that is not path-absolute, whether the browser
    lets \<^verbatim>\<open>history.pushState\<close> rewrite the document's URL to it: the string parses
    against the document's URL, and the result differs from the document's URL in path,
    query and fragment only. This depends on where the page is served from;
  \<^item> \<open>title\<close>: the text that the last assignment to \<^verbatim>\<open>document.title\<close> gave the
    \<^verbatim>\<open>title\<close> element (a read of \<^verbatim>\<open>document.title\<close> gives this text with its
    white space stripped and collapsed);
  \<^item> \<open>theme_color\<close>: the content of \<^verbatim>\<open>meta[name="theme-color"]\<close>;
  \<^item> \<open>main_children\<close>: the element children of \<^verbatim>\<open><main></main>\<close>, the display slot;
  \<^item> \<open>next_elem\<close>: the identity the next created element gets;
  \<^item> \<open>view_transitions\<close>: whether \<^verbatim>\<open>document.startViewTransition\<close> exists;
  \<^item> \<open>transition_callbacks\<close>: the \<^verbatim>\<open>changePage\<close> closures handed to
    \<^verbatim>\<open>startViewTransition\<close> and not yet called, each with the \<^verbatim>\<open>pageElement\<close> it
    captured (the runtime calls an update callback later, not inside
    \<^verbatim>\<open>startViewTransition\<close>);
  \<^item> \<open>scroll_left\<close>: the horizontal scroll offset of the viewport, which the getter of
    \<^verbatim>\<open>window.scrollX\<close> reports;
  \<^item> \<open>scrollX_own\<close>: the own property \<^verbatim>\<open>scrollX\<close> of the window object.
    \<^verbatim>\<open>scrollX\<close> is a replaceable read-only attribute of \<^verbatim>\<open>Window\<close>: an
    assignment to it defines an own data property that shadows the getter, and scrolls
    nothing;
  \<^item> \<open>module_map\<close>: the module map;
  \<^item> \<open>trace\<close>: the effects so far.
\<close>

record browser =
  history :: "history_entry list"
  rewritable :: "string \<Rightarrow> bool"
  title :: string
  theme_color :: string
  main_children :: "element list"
  next_elem :: nat
  view_transitions :: bool
  transition_callbacks :: "element list"
  scroll_left :: int
  scrollX_own :: "int option"
  module_map :: "string \<rightharpoonup> module_status"
  trace :: "effect list"

definition emit :: "effect \<Rightarrow> browser \<Rightarrow> browser" where
  "emit e s = s\<lparr>trace := trace s @ [e]\<rparr>"

text \<open>
  A URL string that is path-absolute: it begins with one \<^verbatim>\<open>/\<close> that neither a
  \<^verbatim>\<open>/\<close> nor a backslash follows, the tabs and newlines that the URL parser drops
  left aside. The page is taken to be served over http or https, without a
  \<^verbatim>\<open>base\<close> element of another origin: such a string then parses to a URL of the
  page's own origin. A string that begins with \<^verbatim>\<open>//\<close> names a host instead.
\<close>

definition path_absolute :: "string \<Rightarrow> bool" where
  "path_absolute url =
     (case url of
        [] \<Rightarrow> False
      | c # cs \<Rightarrow>
          c = CHR ''/'' \<and>
          (case filter (\<lambda>d. d \<noteq> CHR 0x09 \<and> d \<noteq> CHR 0x0A \<and> d \<noteq> CHR 0x0D) cs of
             [] \<Rightarrow> True
           | d # ds \<Rightarrow> d \<noteq> CHR ''/'' \<and> d \<noteq> CHR 0x5C))"

text \<open>Whether \<^verbatim>\<open>history.pushState\<close> accepts a URL string for the document.\<close>

definition url_accepted :: "browser \<Rightarrow> string \<Rightarrow> bool" where
  "url_accepted s url = (path_absolute url \<or> rewritable s url)"

text \<open>The entry \<^verbatim>\<open>{ route }\<close> with the URL \<^verbatim>\<open>route\<close>, added to the session history.\<close>

definition push_entry :: "string \<Rightarrow> browser \<Rightarrow> browser" where
  "push_entry route s =
     emit (PushState route)
       (s\<lparr>history := history s @
            [\<lparr>entry_state = Some (HistoryState route), entry_url = route\<rparr>]\<rparr>)"

text \<open>
  \<^verbatim>\<open>history.pushState({ route }, '', route)\<close>, as the HTML Standard has it: it adds
  the entry, or throws a \<^verbatim>\<open>SecurityError\<close> and adds nothing when the URL is not
  accepted. The state object holds one string, so its serialisation does not fail.
\<close>

definition pushState :: "string \<Rightarrow> browser \<Rightarrow> error + browser" where
  "pushState route s =
     (if url_accepted s route then Inr (push_entry route s) else Inl SecurityError)"

text \<open>\<^verbatim>\<open>document.createElement(tag)\<close>\<close>

definition createElement :: "string \<Rightarrow> browser \<Rightarrow> element \<times> browser" where
  "createElement tag s =
     (\<lparr>elem_id = next_elem s, tagName = tag, productId = None\<rparr>,
      emit (CreateElement (next_elem s) tag) (s\<lparr>next_elem := Suc (next_elem s)\<rparr>))"

text \<open>
  \<^verbatim>\<open>Router.setMetadata(title, color)\<close>: the assignment to \<^verbatim>\<open>document.title\<close> makes
  the given string the text of the \<^verbatim>\<open>title\<close> element. The page is taken to hold
  the \<^verbatim>\<open>meta[name="theme-color"]\<close> element.
\<close>

definition setMetadata :: "string \<Rightarrow> string \<Rightarrow> browser \<Rightarrow> browser" where
  "setMetadata t color s =
     emit (SetMetadata t color)
       (s\<lparr>title := t @ '' - Coffee Shop'', theme_color := color\<rparr>)"

subsection \<open>Dynamic import\<close>

text \<open>
  Modelled from the spec: \<open>ModuleRegistry.ensureLoaded\<close>. In \<^verbatim>\<open>Router.js\<close> this is the
  runtime's dynamic \<^verbatim>\<open>import()\<close>, whose module map is not part of the repository. A
  request for a specifier with no entry starts the load and records it as in flight; a
  request for a specifier with an entry starts nothing.
\<close>

definition import_request :: "string \<Rightarrow> browser \<Rightarrow> browser" where
  "import_request spec s =
     (case module_map s spec of
        None \<Rightarrow> emit (FetchModule spec) (s\<lparr>module_map := (module_map s)(spec \<mapsto> Fetching)\<rparr>)
      | Some st \<Rightarrow> s)"

text \<open>
  Modelled from the spec: the end of a load in flight, with the module or with a
  failure; the entry keeps the result. Without a load in flight nothing happens.
\<close>

definition load_finished :: "string \<Rightarrow> nat option \<Rightarrow> browser \<Rightarrow> browser" where
  "load_finished spec res s =
     (case module_map s spec of
        Some Fetching \<Rightarrow>
          emit (ModuleSettled spec res)
            (s\<lparr>module_map := (module_map s)
                 (spec \<mapsto> (case res of Some m \<Rightarrow> Evaluated m | None \<Rightarrow> Errored))\<rparr>)
      | Some st \<Rightarrow> s
      | None \<Rightarrow> s)"

text \<open>
  Modelled from the spec: what a call waiting for \<open>spec\<close> can see. \<open>None\<close>: the
  load has not ended and the call keeps waiting; \<open>Some r\<close>: it has ended, with the
  module \<open>r = Some m\<close> or with a failure \<open>r = None\<close>.
\<close>

definition settled :: "string \<Rightarrow> browser \<Rightarrow> nat option option" where
  "settled spec s =
     (case module_map s spec of
        None \<Rightarrow> None
      | Some Fetching \<Rightarrow> None
      | Some (Evaluated m) \<Rightarrow> Some (Some m)
      | Some Errored \<Rightarrow> Some None)"

text \<open>
  \<^verbatim>\<open>await import(spec)\<close> when no other task runs meanwhile: the request, the end of the
  load it waits for (\<open>loader\<close> says how a load of each specifier ends), and the
  value the \<^verbatim>\<open>await\<close> gives: the module, or \<open>None\<close> when it throws. After the
  first two steps the load has ended (lemma \<open>settled_after_load\<close>), so the inner
  \<open>None\<close> case never applies.
\<close>

definition await_import ::
  "(string \<Rightarrow> nat option) \<Rightarrow> string \<Rightarrow> browser \<Rightarrow> nat option \<times> browser" where
  "await_import loader spec s =
     (let s1 = import_request spec s;
          s2 = load_finished spec (loader spec) s1;
          res = (case settled spec s2 of Some r \<Rightarrow> r | None \<Rightarrow> None)
      in (res, emit (AwaitReturned spec res) s2))"

definition OrderPage_js :: string where
  "OrderPage_js = ''../components/OrderPage.js''"

definition DetailsPage_js :: string where
  "DetailsPage_js = ''../components/DetailsPage.js''"

section \<open>Router\<close>

text \<open>
  The inner function \<^verbatim>\<open>changePage\<close> of \<^verbatim>\<open>Router.go\<close>, closed over \<^verbatim>\<open>pageElement\<close>:
  the first element child of \<^verbatim>\<open><main></main>\<close>, when there is one, is removed, and the
  new element is appended.
\<close>

definition changePage :: "element \<Rightarrow> browser \<Rightarrow> browser" where
  "changePage pageElement s =
     emit (ChangePage (elem_id pageElement))
       (case main_children s of
          [] \<Rightarrow> s\<lparr>main_children := [pageElement]\<rparr>
        | currentPage # others \<Rightarrow> s\<lparr>main_children := others @ [pageElement]\<rparr>)"

text \<open>\<^verbatim>\<open>document.startViewTransition(() => { changePage(); })\<close>: the callback is kept for later.\<close>

definition startViewTransition :: "element \<Rightarrow> browser \<Rightarrow> browser" where
  "startViewTransition pageElement s =
     emit (StartViewTransition (elem_id pageElement))
       (s\<lparr>transition_callbacks := transition_callbacks s @ [pageElement]\<rparr>)"

text \<open>The runtime calls the update callbacks it holds, oldest first.\<close>

definition run_transition_callbacks :: "browser \<Rightarrow> browser" where
  "run_transition_callbacks s =
     fold changePage (transition_callbacks s) (s\<lparr>transition_callbacks := []\<rparr>)"

text \<open>\<^verbatim>\<open>window.scrollX = 0\<close>\<close>

definition assign_scrollX :: "int \<Rightarrow> browser \<Rightarrow> browser" where
  "assign_scrollX v s = emit AssignScrollX (s\<lparr>scrollX_own := Some v\<rparr>)"

text \<open>Reading \<^verbatim>\<open>window.scrollX\<close>: the own property when there is one, else the getter.\<close>

definition read_scrollX :: "browser \<Rightarrow> int" where
  "read_scrollX s = (case scrollX_own s of Some v \<Rightarrow> v | None \<Rightarrow> scroll_left s)"

text \<open>
  The \<^verbatim>\<open>switch (route)\<close> of \<^verbatim>\<open>Router.go\<close> (lines 47 to 72): the value of
  \<^verbatim>\<open>pageElement\<close> after it, or the error a failed import throws.
\<close>

definition switch_route ::
  "(string \<Rightarrow> nat option) \<Rightarrow> string \<Rightarrow> browser \<Rightarrow> (error + element option) \<times> browser" where
  "switch_route loader route s =
     (if route = ''/'' then
        (let (pageElement, s1) = createElement ''menu-page'' s;
             s2 = setMetadata ''Menu'' ''#fff'' s1
         in (Inr (Some pageElement), s2))
      else if route = ''/order'' then
        (case await_import loader OrderPage_js s of
           (None, s1) \<Rightarrow> (Inl (ImportFailed OrderPage_js), s1)
         | (Some m, s1) \<Rightarrow>
             (let (pageElement, s2) = createElement ''order-page'' s1;
                  s3 = setMetadata ''Your Order'' ''#f60'' s2
              in (Inr (Some pageElement), s3)))
      else if startsWith route ''/product-'' then
        (let s1 = setMetadata ''Product Details'' ''#f0f'' s
         in case await_import loader DetailsPage_js s1 of
              (None, s2) \<Rightarrow> (Inl (ImportFailed DetailsPage_js), s2)
            | (Some m, s2) \<Rightarrow>
                (let (pageElement, s3) = createElement ''details-page'' s2
                 in (Inr (Some (pageElement
                       \<lparr>productId := Some (substring route (lastIndexOf route CHR ''-'' + 1))\<rparr>)),
                     s3)))
      else (Inr None, s))"

text \<open>Lines 73 to 95 of \<^verbatim>\<open>Router.go\<close>: the swap, at once or inside a view transition.\<close>

definition mount :: "element option \<Rightarrow> browser \<Rightarrow> browser" where
  "mount pe s =
     (case pe of
        None \<Rightarrow> s
      | Some pageElement \<Rightarrow>
          if view_transitions s then startViewTransition pageElement s
          else changePage pageElement s)"

text \<open>\<^verbatim>\<open>Router.go(route, addToHistory)\<close>\<close>

definition go ::
  "(string \<Rightarrow> nat option) \<Rightarrow> string \<Rightarrow> bool \<Rightarrow> browser \<Rightarrow> outcome \<times> browser" where
  "go loader route addToHistory s =
     (case (if addToHistory then pushState route s else Inr s) of
        Inl err \<Rightarrow> (Rejected err, s)
      | Inr s1 \<Rightarrow>
          (case switch_route loader route s1 of
             (Inl err, s2) \<Rightarrow> (Rejected err, s2)
           | (Inr pe, s2) \<Rightarrow> (Fulfilled, assign_scrollX 0 (mount pe s2))))"

text \<open>
  The view a route stands for in the \<^verbatim>\<open>switch\<close>: the tag of the element it creates and
  the product identifier it stores, loading left aside.
\<close>

definition resolve :: "string \<Rightarrow> (string \<times> string option) option" where
  "resolve route =
     (if route = ''/'' then Some (''menu-page'', None)
      else if route = ''/order'' then Some (''order-page'', None)
      else if startsWith route ''/product-'' then
        Some (''details-page'', Some (substring route (lastIndexOf route CHR ''-'' + 1)))
      else None)"

definition view_of :: "element \<Rightarrow> string \<times> string option" where
  "view_of e = (tagName e, productId e)"

subsection \<open>Router.init: the listeners\<close>

text \<open>The click listener of a \<^verbatim>\<open>a.navlink\<close>: \<^verbatim>\<open>Router.go(href)\<close>, with the default
  \<^verbatim>\<open>addToHistory = true\<close>.\<close>

definition navlink_click ::
  "(string \<Rightarrow> nat option) \<Rightarrow> string \<Rightarrow> browser \<Rightarrow> outcome \<times> browser" where
  "navlink_click loader href s = go loader href True s"

text \<open>
  The \<^verbatim>\<open>popstate\<close> listener: \<^verbatim>\<open>Router.go(event.state.route, false)\<close>. The argument is
  \<^verbatim>\<open>event.state\<close>, \<open>None\<close> for \<^verbatim>\<open>null\<close>. Reading \<^verbatim>\<open>.route\<close> of \<^verbatim>\<open>null\<close> throws
  a \<^verbatim>\<open>TypeError\<close> out of the listener (\<open>Inl\<close>) before \<^verbatim>\<open>Router.go\<close> is called;
  otherwise the listener returns with the promise of \<^verbatim>\<open>Router.go\<close> (\<open>Inr\<close>).
\<close>

definition popstate_listener ::
  "(string \<Rightarrow> nat option) \<Rightarrow> history_state option \<Rightarrow> browser
   \<Rightarrow> (error + outcome) \<times> browser" where
  "popstate_listener loader event_state s =
     (case event_state of
        None \<Rightarrow> (Inl TypeError, s)
      | Some st \<Rightarrow>
          (case go loader (state_route st) False s of (res, s') \<Rightarrow> (Inr res, s')))"

text \<open>The last statement of \<^verbatim>\<open>Router.init\<close>: \<^verbatim>\<open>Router.go(location.pathname)\<close>.\<close>

definition init_route ::
  "(string \<Rightarrow> nat option) \<Rightarrow> string \<Rightarrow> browser \<Rightarrow> outcome \<times> browser" where
  "init_route loader pathname s = go loader pathname True s"

text \<open>
  A page as the browser has it before \<^verbatim>\<open>Router.init\<close> runs: one history entry without
  a state object, an empty \<^verbatim>\<open><main></main>\<close>, nothing loaded on demand. It serves as the
  concrete input of the examples below. Of the URL strings that are not path-absolute
  the examples use only \<^verbatim>\<open>//unknown\<close>, which names a host other than the page's, so
  \<open>rewritable\<close> is taken to refuse.
\<close>

definition blank_page :: browser where
  "blank_page =
     \<lparr>history = [\<lparr>entry_state = None, entry_url = ''/''\<rparr>],
      rewritable = (\<lambda>url. False),
      title = ''Coffee Shop'', theme_color = ''#000'',
      main_children = [], next_elem = 0,
      view_transitions = False, transition_callbacks = [],
      scroll_left = 0, scrollX_own = None,
      module_map = Map.empty, trace = []\<rparr>"

text \<open>Two loaders for the examples: every load gives module 7; every load fails.\<close>

definition loads_all :: "string \<Rightarrow> nat option" where
  "loads_all spec = Some 7"

definition loads_none :: "string \<Rightarrow> nat option" where
  "loads_none spec = None"

section \<open>Loads of one module, among interleaved tasks\<close>

text \<open>
  Modelled from the spec: the steps that tasks sharing the module map can take, one at a
  time. \<open>Ensure spec\<close> is a call of \<open>ensureLoaded\<close>; \<open>LoadEnds spec r\<close> is the end of
  the load of \<open>spec\<close>; \<open>Resume spec\<close> lets a call waiting for \<open>spec\<close> go on, which
  happens only once the load has ended; \<open>Navigate route b\<close> is a whole
  \<^verbatim>\<open>Router.go(route, b)\<close>.
\<close>

datatype task_step =
    Ensure string
  | LoadEnds string "nat option"
  | Resume string
  | Navigate string bool

fun step :: "(string \<Rightarrow> nat option) \<Rightarrow> task_step \<Rightarrow> browser \<Rightarrow> browser" where
  "step loader (Ensure spec) s = import_request spec s"
| "step loader (LoadEnds spec r) s = load_finished spec r s"
| "step loader (Resume spec) s =
     (case settled spec s of None \<Rightarrow> s | Some r \<Rightarrow> emit (AwaitReturned spec r) s)"
| "step loader (Navigate route b) s = snd (go loader route b s)"

definition run :: "(string \<Rightarrow> nat option) \<Rightarrow> task_step list \<Rightarrow> browser \<Rightarrow> browser" where
  "run loader steps s = fold (step loader) steps s"

text \<open>The effects that concern the load of \<open>spec\<close>, and their sequence in the trace.\<close>

fun about :: "string \<Rightarrow> effect \<Rightarrow> bool" where
  "about spec (FetchModule x) = (x = spec)"
| "about spec (ModuleSettled x r) = (x = spec)"
| "about spec (AwaitReturned x r) = (x = spec)"
| "about spec e = False"

definition load_history :: "string \<Rightarrow> browser \<Rightarrow> effect list" where
  "load_history spec s = filter (about spec) (trace s)"

text \<open>
  The trace agrees with the module map on \<open>spec\<close>: nothing before the first request;
  one load started while it is in flight; and after its end one load started, then its
  end, then only calls going on with the very result of that end.
\<close>

definition coalesced :: "string \<Rightarrow> browser \<Rightarrow> bool" where
  "coalesced spec s =
     (case settled spec s of
        Some r \<Rightarrow>
          load_history spec s =
            FetchModule spec # ModuleSettled spec r #
              replicate (length (load_history spec s) - 2) (AwaitReturned spec r)
      | None \<Rightarrow>
          (case module_map s spec of
             None \<Rightarrow> load_history spec s = []
           | Some st \<Rightarrow> load_history spec s = [FetchModule spec]))"

section \<open>Store\<close>

text \<open>
  Modelled from the spec: the StateStore of section 4.1; \<^verbatim>\<open>services/Store.js\<close> is not
  among the sources. The state holds the two fields; \<open>'v\<close> is the type of the values
  written to them.
\<close>

datatype store_field = MenuField | CartField

datatype notification = MenuChanged | CartChanged

record 'v app_state =
  menu :: 'v
  cart :: 'v

text \<open>
  Modelled from the spec: the store. \<open>handlers\<close> holds the subscriptions in the order
  they were made, each a notification kind and the identity of a handler;
  \<open>deliveries\<close> records every call of a handler: the handler, the kind, and the state
  that a \<open>read\<close> by the handler sees during that call.
\<close>

record 'v store =
  app :: "'v app_state"
  handlers :: "(notification \<times> nat) list"
  deliveries :: "(nat \<times> notification \<times> 'v app_state) list"

text \<open>Modelled from the spec: the notification kind that matches a field.\<close>

fun kind_of :: "store_field \<Rightarrow> notification" where
  "kind_of MenuField = MenuChanged"
| "kind_of CartField = CartChanged"

text \<open>Modelled from the spec: the value of a field in a state.\<close>

fun read_field :: "store_field \<Rightarrow> 'v app_state \<Rightarrow> 'v" where
  "read_field MenuField a = menu a"
| "read_field CartField a = cart a"

text \<open>Modelled from the spec: \<open>read(field)\<close>.\<close>

definition read_store :: "store_field \<Rightarrow> 'v store \<Rightarrow> 'v" where
  "read_store f st = read_field f (app st)"

text \<open>Modelled from the spec: \<open>subscribe(kind, handler)\<close> and \<open>unsubscribe(kind, handler)\<close>.\<close>

definition subscribe :: "notification \<Rightarrow> nat \<Rightarrow> 'v store \<Rightarrow> 'v store" where
  "subscribe k h st = st\<lparr>handlers := handlers st @ [(k, h)]\<rparr>"

definition unsubscribe :: "notification \<Rightarrow> nat \<Rightarrow> 'v store \<Rightarrow> 'v store" where
  "unsubscribe k h st = st\<lparr>handlers := removeAll (k, h) (handlers st)\<rparr>"

text \<open>Modelled from the spec: the handlers registered for a kind, in registration order.\<close>

definition subscribers :: "notification \<Rightarrow> 'v store \<Rightarrow> nat list" where
  "subscribers k st = map snd (filter (\<lambda>p. fst p = k) (handlers st))"

text \<open>Modelled from the spec: one call of a handler, which sees the store as it is then.\<close>

definition invoke :: "notification \<Rightarrow> nat \<Rightarrow> 'v store \<Rightarrow> 'v store" where
  "invoke k h st = st\<lparr>deliveries := deliveries st @ [(h, k, app st)]\<rparr>"

text \<open>Modelled from the spec: the broadcast, handler after handler.\<close>

fun notify :: "notification \<Rightarrow> nat list \<Rightarrow> 'v store \<Rightarrow> 'v store" where
  "notify k [] st = st"
| "notify k (h # hs) st = notify k hs (invoke k h st)"

text \<open>Modelled from the spec: the commit of a value to a field.\<close>

fun commit :: "store_field \<Rightarrow> 'v \<Rightarrow> 'v store \<Rightarrow> 'v store" where
  "commit MenuField v st = st\<lparr>app := (app st)\<lparr>menu := v\<rparr>\<rparr>"
| "commit CartField v st = st\<lparr>app := (app st)\<lparr>cart := v\<rparr>\<rparr>"

text \<open>
  Modelled from the spec: \<open>write(field, value)\<close>: the commit, then the broadcast to the
  handlers registered at that moment.
\<close>

definition write_store :: "store_field \<Rightarrow> 'v \<Rightarrow> 'v store \<Rightarrow> 'v store" where
  "write_store f v st =
     (let st1 = commit f v st
      in notify (kind_of f) (subscribers (kind_of f) st1) st1)"

text \<open>A store with three subscriptions, two of them for the cart; it serves as a concrete
  input below.\<close>

definition sample_store :: "nat list store" where
  "sample_store =
     \<lparr>app = \<lparr>menu = [], cart = []\<rparr>,
      handlers = [(CartChanged, 1), (MenuChanged, 2), (CartChanged, 3)],
      deliveries = []\<rparr>"

section \<open>Properties of the string primitives\<close>

lemma lastIndexOf_absent: "c \<notin> set xs \<Longrightarrow> lastIndexOf xs c = - 1"
  by (induction xs) (auto simp: Let_def)

lemma lastIndexOf_split:
  "c \<in> set xs \<Longrightarrow>
   \<exists>pre post. xs = pre @ c # post \<and> c \<notin> set post \<and> lastIndexOf xs c = int (length pre)"
proof (induction xs)
  case Nil
  then show ?case by simp
next
  case (Cons x xs)
  show ?case
  proof (cases "c \<in> set xs")
    case True
    with Cons.IH obtain pre post where
      h: "xs = pre @ c # post" "c \<notin> set post" "lastIndexOf xs c = int (length pre)"
      by blast
    have "x # xs = (x # pre) @ c # post" using h(1) by simp
    moreover have "lastIndexOf (x # xs) c = int (length (x # pre))"
      using h(3) by (simp add: Let_def)
    ultimately show ?thesis using h(2) by blast
  next
    case False
    with Cons.prems have xc: "x = c" by simp
    have "lastIndexOf (x # xs) c = int (length ([]::string))"
      using False xc by (simp add: Let_def lastIndexOf_absent)
    moreover have "x # xs = [] @ c # xs" using xc by simp
    ultimately show ?thesis using False by blast
  qed
qed

lemma substring_after:
  "substring (pre @ c # post) (int (length pre) + 1) = post"
proof -
  have "nat (int (length pre) + 1) = Suc (length pre)" by simp
  then show ?thesis by (simp add: substring_def)
qed

lemma startsWith_product_dash: "startsWith route ''/product-'' \<Longrightarrow> CHR ''-'' \<in> set route"
proof -
  assume "startsWith route ''/product-''"
  then have "take (length ''/product-'') route = ''/product-''"
    unfolding startsWith_def .
  moreover have "CHR ''-'' \<in> set ''/product-''" by simp
  ultimately have "CHR ''-'' \<in> set (take (length ''/product-'') route)" by simp
  then show ?thesis by (rule in_set_takeD)
qed

lemma product_suffix:
  assumes "startsWith route ''/product-''"
  shows "\<exists>pre p. route = pre @ CHR ''-'' # p \<and> CHR ''-'' \<notin> set p \<and>
           substring route (lastIndexOf route CHR ''-'' + 1) = p"
proof -
  from lastIndexOf_split [OF startsWith_product_dash [OF assms]] obtain pre post where
    h: "route = pre @ CHR ''-'' # post" "CHR ''-'' \<notin> set post"
       "lastIndexOf route CHR ''-'' = int (length pre)"
    by blast
  have "substring route (lastIndexOf route CHR ''-'' + 1) = post"
    using h(1) h(3) substring_after [of pre "CHR ''-''" post] by simp
  with h show ?thesis by blast
qed

lemma switch_route_view:
  "switch_route loader route s = (Inr pe, s') \<Longrightarrow> map_option view_of pe = resolve route"
  by (auto simp: switch_route_def resolve_def view_of_def createElement_def Let_def
           split: if_splits prod.splits option.splits)


section \<open>Properties of the router's steps\<close>

lemma await_import_result:
  "fst (await_import loader spec s) =
     (case module_map s spec of
        None \<Rightarrow> loader spec
      | Some Fetching \<Rightarrow> loader spec
      | Some (Evaluated m) \<Rightarrow> Some m
      | Some Errored \<Rightarrow> None)"
  by (simp add: await_import_def import_request_def load_finished_def settled_def emit_def
        Let_def split: option.splits module_status.splits)

lemma await_import_frame:
  "history (snd (await_import loader spec s)) = history s"
  "title (snd (await_import loader spec s)) = title s"
  "theme_color (snd (await_import loader spec s)) = theme_color s"
  "main_children (snd (await_import loader spec s)) = main_children s"
  "next_elem (snd (await_import loader spec s)) = next_elem s"
  "view_transitions (snd (await_import loader spec s)) = view_transitions s"
  "transition_callbacks (snd (await_import loader spec s)) = transition_callbacks s"
  "scroll_left (snd (await_import loader spec s)) = scroll_left s"
  "scrollX_own (snd (await_import loader spec s)) = scrollX_own s"
  by (simp_all add: await_import_def import_request_def load_finished_def emit_def
        Let_def split: option.splits module_status.splits)

lemma await_import_trace:
  "trace (snd (await_import loader spec s)) =
     trace s @
     (case module_map s spec of
        None \<Rightarrow> [FetchModule spec, ModuleSettled spec (loader spec), AwaitReturned spec (loader spec)]
      | Some Fetching \<Rightarrow> [ModuleSettled spec (loader spec), AwaitReturned spec (loader spec)]
      | Some (Evaluated m) \<Rightarrow> [AwaitReturned spec (Some m)]
      | Some Errored \<Rightarrow> [AwaitReturned spec None])"
  by (simp add: await_import_def import_request_def load_finished_def settled_def emit_def
        Let_def split: option.splits module_status.splits)

lemma await_import_module_map:
  "module_map (snd (await_import loader spec s)) =
     (case module_map s spec of
        None \<Rightarrow> (module_map s)(spec \<mapsto> (case loader spec of Some m \<Rightarrow> Evaluated m | None \<Rightarrow> Errored))
      | Some Fetching \<Rightarrow> (module_map s)(spec \<mapsto> (case loader spec of Some m \<Rightarrow> Evaluated m | None \<Rightarrow> Errored))
      | Some st \<Rightarrow> module_map s)"
  by (simp add: await_import_def import_request_def load_finished_def settled_def emit_def
        Let_def split: option.splits module_status.splits)


lemma switch_menu:
  "switch_route loader ''/'' s =
     (Inr (Some \<lparr>elem_id = next_elem s, tagName = ''menu-page'', productId = None\<rparr>),
      setMetadata ''Menu'' ''#fff'' (snd (createElement ''menu-page'' s)))"
  by (simp add: switch_route_def createElement_def)

lemma switch_order:
  "switch_route loader ''/order'' s =
     (case fst (await_import loader OrderPage_js s) of
        None \<Rightarrow> (Inl (ImportFailed OrderPage_js), snd (await_import loader OrderPage_js s))
      | Some m \<Rightarrow>
          (Inr (Some \<lparr>elem_id = next_elem s, tagName = ''order-page'', productId = None\<rparr>),
           setMetadata ''Your Order'' ''#f60''
             (snd (createElement ''order-page'' (snd (await_import loader OrderPage_js s))))))"
proof -
  obtain r s1 where a: "await_import loader OrderPage_js s = (r, s1)"
    by (cases "await_import loader OrderPage_js s")
  have n: "next_elem s1 = next_elem s"
    using await_import_frame(5) [of loader OrderPage_js s] a by simp
  show ?thesis
    by (cases r) (simp_all add: switch_route_def a createElement_def n)
qed

lemma switch_product:
  assumes "startsWith route ''/product-''"
  shows "switch_route loader route s =
     (case fst (await_import loader DetailsPage_js (setMetadata ''Product Details'' ''#f0f'' s)) of
        None \<Rightarrow> (Inl (ImportFailed DetailsPage_js),
                 snd (await_import loader DetailsPage_js (setMetadata ''Product Details'' ''#f0f'' s)))
      | Some m \<Rightarrow>
          (Inr (Some \<lparr>elem_id = next_elem s, tagName = ''details-page'',
                       productId = Some (substring route (lastIndexOf route CHR ''-'' + 1))\<rparr>),
           snd (createElement ''details-page''
             (snd (await_import loader DetailsPage_js (setMetadata ''Product Details'' ''#f0f'' s))))))"
proof -
  let ?s0 = "setMetadata ''Product Details'' ''#f0f'' s"
  obtain r s1 where a: "await_import loader DetailsPage_js ?s0 = (r, s1)"
    by (cases "await_import loader DetailsPage_js ?s0")
  have n: "next_elem s1 = next_elem s"
    using await_import_frame(5) [of loader DetailsPage_js ?s0] a
    by (simp add: setMetadata_def emit_def)
  have r1: "route \<noteq> ''/''" and r2: "route \<noteq> ''/order''"
    using assms by (auto simp: startsWith_def)
  show ?thesis
    by (cases r) (simp_all add: switch_route_def a createElement_def n r1 r2 assms)
qed

lemma switch_none:
  assumes "route \<noteq> ''/''" "route \<noteq> ''/order''" "\<not> startsWith route ''/product-''"
  shows "switch_route loader route s = (Inr None, s)"
  using assms by (simp add: switch_route_def)

lemma route_cases:
  obtains (menu) "route = ''/''"
  | (order) "route = ''/order''"
  | (product) "startsWith route ''/product-''"
  | (none) "route \<noteq> ''/''" "route \<noteq> ''/order''" "\<not> startsWith route ''/product-''"
  by blast

lemma switch_route_frame:
  "history (snd (switch_route loader route s)) = history s \<and>
   main_children (snd (switch_route loader route s)) = main_children s \<and>
   view_transitions (snd (switch_route loader route s)) = view_transitions s \<and>
   transition_callbacks (snd (switch_route loader route s)) = transition_callbacks s \<and>
   scroll_left (snd (switch_route loader route s)) = scroll_left s \<and>
   scrollX_own (snd (switch_route loader route s)) = scrollX_own s"
proof (cases route rule: route_cases)
  case menu
  then show ?thesis
    by (simp add: switch_menu setMetadata_def createElement_def emit_def)
next
  case order
  then show ?thesis
    by (simp add: switch_order setMetadata_def createElement_def emit_def await_import_frame
          split: option.splits)
next
  case product
  then show ?thesis
    by (simp add: switch_product setMetadata_def createElement_def emit_def await_import_frame
          split: option.splits)
next
  case none
  then show ?thesis
    by (simp add: switch_none)
qed

lemma switch_route_rejected:
  assumes "fst (switch_route loader route s) = Inl e"
  shows "next_elem (snd (switch_route loader route s)) = next_elem s \<and>
         (route = ''/order'' \<and> e = ImportFailed OrderPage_js \<and>
            fst (await_import loader OrderPage_js s) = None \<or>
          startsWith route ''/product-'' \<and> e = ImportFailed DetailsPage_js \<and>
            fst (await_import loader DetailsPage_js s) = None)"
proof (cases route rule: route_cases)
  case menu
  then show ?thesis using assms by (simp add: switch_menu)
next
  case order
  then show ?thesis using assms
    by (auto simp: switch_order await_import_frame split: option.splits)
next
  case product
  then show ?thesis using assms
    by (auto simp: switch_product await_import_frame await_import_result
          setMetadata_def emit_def split: option.splits)
next
  case none
  then show ?thesis using assms by (simp add: switch_none)
qed


lemma push_entry_frame:
  "main_children (push_entry route s) = main_children s \<and>
   view_transitions (push_entry route s) = view_transitions s \<and>
   transition_callbacks (push_entry route s) = transition_callbacks s \<and>
   scroll_left (push_entry route s) = scroll_left s \<and>
   scrollX_own (push_entry route s) = scrollX_own s \<and>
   next_elem (push_entry route s) = next_elem s \<and>
   module_map (push_entry route s) = module_map s \<and>
   trace (push_entry route s) = trace s @ [PushState route] \<and>
   history (push_entry route s) =
     history s @ [\<lparr>entry_state = Some (HistoryState route), entry_url = route\<rparr>]"
  by (simp add: push_entry_def emit_def)

lemma mount_frame:
  "history (mount pe s) = history s \<and>
   scroll_left (mount pe s) = scroll_left s \<and>
   scrollX_own (mount pe s) = scrollX_own s \<and>
   next_elem (mount pe s) = next_elem s \<and>
   module_map (mount pe s) = module_map s"
  by (simp add: mount_def changePage_def startViewTransition_def emit_def
        split: option.splits list.splits)

lemma assign_scrollX_frame:
  "history (assign_scrollX v s) = history s \<and>
   main_children (assign_scrollX v s) = main_children s \<and>
   transition_callbacks (assign_scrollX v s) = transition_callbacks s \<and>
   view_transitions (assign_scrollX v s) = view_transitions s \<and>
   scroll_left (assign_scrollX v s) = scroll_left s \<and>
   scrollX_own (assign_scrollX v s) = Some v \<and>
   next_elem (assign_scrollX v s) = next_elem s \<and>
   module_map (assign_scrollX v s) = module_map s \<and>
   trace (assign_scrollX v s) = trace s @ [AssignScrollX]"
  by (simp add: assign_scrollX_def emit_def)

text \<open>Router.go as the sequence of its steps.\<close>

lemma path_absolute_product:
  assumes "startsWith route ''/product-''"
  shows "path_absolute route"
proof -
  have "take (length ''/product-'') route = ''/product-''"
    using assms unfolding startsWith_def .
  then have "route = ''/product-'' @ drop (length ''/product-'') route"
    by (metis append_take_drop_id)
  then obtain rest where "route = ''/product-'' @ rest" ..
  then show ?thesis by (simp add: path_absolute_def)
qed

lemma url_accepted_known:
  "url_accepted s ''/''" "url_accepted s ''/order''"
  "startsWith route ''/product-'' \<Longrightarrow> url_accepted s route"
proof -
  show "url_accepted s ''/''" "url_accepted s ''/order''"
    by (simp_all add: url_accepted_def path_absolute_def)
  show "url_accepted s route" if "startsWith route ''/product-''"
    using path_absolute_product [OF that] by (simp add: url_accepted_def)
qed

lemma go_refused:
  assumes "b" "\<not> url_accepted s route"
  shows "go loader route b s = (Rejected SecurityError, s)"
  using assms by (simp add: go_def pushState_def)

lemma go_steps:
  "go loader route b s =
     (if b \<and> \<not> url_accepted s route then (Rejected SecurityError, s)
      else
       case fst (switch_route loader route (if b then push_entry route s else s)) of
         Inl err \<Rightarrow>
           (Rejected err, snd (switch_route loader route (if b then push_entry route s else s)))
       | Inr pe \<Rightarrow>
           (Fulfilled,
            assign_scrollX 0
              (mount pe (snd (switch_route loader route (if b then push_entry route s else s))))))"
  by (cases b) (simp_all add: go_def pushState_def split: prod.splits sum.splits)

lemma go_history:
  "history (snd (go loader route b s)) =
     (if b \<and> url_accepted s route
      then history s @ [\<lparr>entry_state = Some (HistoryState route), entry_url = route\<rparr>]
      else history s)"
proof (cases "b \<and> \<not> url_accepted s route")
  case True
  then show ?thesis by (simp add: go_refused)
next
  case False
  then have ok: "\<not> b \<or> url_accepted s route" by blast
  show ?thesis
    using ok
    by (cases b)
       (simp_all add: go_steps switch_route_frame mount_frame assign_scrollX_frame
          push_entry_frame split: sum.splits)
qed

lemma go_scroll_left: "scroll_left (snd (go loader route b s)) = scroll_left s"
proof (cases "b \<and> \<not> url_accepted s route")
  case True
  then show ?thesis by (simp add: go_refused)
next
  case False
  then have ok: "\<not> b \<or> url_accepted s route" by blast
  show ?thesis
    using ok
    by (cases b)
       (simp_all add: go_steps switch_route_frame mount_frame assign_scrollX_frame
          push_entry_frame split: sum.splits)
qed

lemma go_rejected:
  assumes "fst (go loader route b s) = Rejected e"
  shows "main_children (snd (go loader route b s)) = main_children s \<and>
         transition_callbacks (snd (go loader route b s)) = transition_callbacks s \<and>
         next_elem (snd (go loader route b s)) = next_elem s"
proof (cases "b \<and> \<not> url_accepted s route")
  case True
  then show ?thesis by (simp add: go_refused)
next
  case False
  then have ok: "\<not> b \<or> url_accepted s route" by blast
  let ?s1 = "if b then push_entry route s else s"
  have e: "fst (switch_route loader route ?s1) = Inl e"
    using assms ok by (cases b) (simp_all add: go_steps split: sum.splits)
  have n: "next_elem (snd (switch_route loader route ?s1)) = next_elem ?s1"
    using switch_route_rejected [OF e] by blast
  show ?thesis
    using e n ok by (cases b) (simp_all add: go_steps switch_route_frame push_entry_frame)
qed

lemma setMetadata_trace: "trace (setMetadata t c s) = trace s @ [SetMetadata t c]"
  by (simp add: setMetadata_def emit_def)

lemma createElement_trace:
  "trace (snd (createElement tag s)) = trace s @ [CreateElement (next_elem s) tag]"
  by (simp add: createElement_def emit_def)

lemma mount_trace:
  "trace (mount pe s) =
     trace s @
     (case pe of
        None \<Rightarrow> []
      | Some e \<Rightarrow>
          if view_transitions s then [StartViewTransition (elem_id e)]
          else [ChangePage (elem_id e)])"
  by (simp add: mount_def changePage_def startViewTransition_def emit_def
        split: option.splits list.splits)

lemma switch_route_trace:
  "\<exists>es. trace (snd (switch_route loader route s)) = trace s @ es \<and>
         \<not> list_ex is_push es \<and> \<not> list_ex is_swap es \<and>
         (\<forall>e. fst (switch_route loader route s) = Inl e \<longrightarrow> \<not> list_ex is_create es)"
proof (cases route rule: route_cases)
  case menu
  then show ?thesis
    by (simp add: switch_menu setMetadata_trace createElement_trace)
next
  case order
  then show ?thesis
    by (simp add: switch_order setMetadata_trace createElement_trace await_import_trace
          await_import_frame split: option.splits module_status.splits)
next
  case product
  then show ?thesis
    by (simp add: switch_product setMetadata_trace createElement_trace await_import_trace
          await_import_frame setMetadata_def emit_def
          split: option.splits module_status.splits)
next
  case none
  then show ?thesis by (simp add: switch_none)
qed

lemma go_trace:
  "\<exists>es. trace (snd (go loader route b s)) =
           trace s @ (if b \<and> url_accepted s route then [PushState route] else []) @ es \<and>
         \<not> list_ex is_push es \<and>
         (\<forall>e. fst (go loader route b s) = Rejected e \<longrightarrow>
              \<not> list_ex is_create es \<and> \<not> list_ex is_swap es)"
proof (cases "b \<and> \<not> url_accepted s route")
  case True
  then have "trace (snd (go loader route b s)) =
      trace s @ (if b \<and> url_accepted s route then [PushState route] else []) @ []"
    by (simp add: go_refused)
  then show ?thesis by (intro exI [of _ "[]"]) simp
next
  case False
  then have ok: "\<not> b \<or> url_accepted s route" by blast
  let ?s1 = "if b then push_entry route s else s"
  obtain es where es:
    "trace (snd (switch_route loader route ?s1)) = trace ?s1 @ es"
    "\<not> list_ex is_push es" "\<not> list_ex is_swap es"
    "\<forall>e. fst (switch_route loader route ?s1) = Inl e \<longrightarrow> \<not> list_ex is_create es"
    using switch_route_trace [of loader route ?s1] by blast
  have t1: "trace ?s1 = trace s @ (if b \<and> url_accepted s route then [PushState route] else [])"
    using ok by (simp add: push_entry_frame)
  show ?thesis
  proof (cases "fst (switch_route loader route ?s1)")
    case (Inl err)
    then have "go loader route b s = (Rejected err, snd (switch_route loader route ?s1))"
      using ok by (cases b) (simp_all add: go_steps)
    then show ?thesis using es t1 Inl by auto
  next
    case (Inr pe)
    then have g: "go loader route b s =
        (Fulfilled, assign_scrollX 0 (mount pe (snd (switch_route loader route ?s1))))"
      using ok by (cases b) (simp_all add: go_steps)
    have "trace (snd (go loader route b s)) =
            trace s @ (if b \<and> url_accepted s route then [PushState route] else []) @
            (es @ (case pe of None \<Rightarrow> [] | Some e \<Rightarrow>
                     if view_transitions (snd (switch_route loader route ?s1))
                     then [StartViewTransition (elem_id e)] else [ChangePage (elem_id e)])
                @ [AssignScrollX])"
      using es(1) t1 by (simp add: g assign_scrollX_frame mount_trace)
    moreover have "\<not> list_ex is_push
            (es @ (case pe of None \<Rightarrow> [] | Some e \<Rightarrow>
                     if view_transitions (snd (switch_route loader route ?s1))
                     then [StartViewTransition (elem_id e)] else [ChangePage (elem_id e)])
                @ [AssignScrollX])"
      using es(2) by (simp split: option.splits)
    moreover have "\<forall>e. fst (go loader route b s) \<noteq> Rejected e"
      by (simp add: g)
    ultimately show ?thesis by blast
  qed
qed

lemma await_import_flag:
  "await_import loader spec (s\<lparr>view_transitions := v\<rparr>) =
     (fst (await_import loader spec s), (snd (await_import loader spec s))\<lparr>view_transitions := v\<rparr>)"
  by (simp add: await_import_def import_request_def load_finished_def settled_def emit_def
        Let_def split: option.splits module_status.splits)

lemma setMetadata_flag:
  "setMetadata t c (s\<lparr>view_transitions := v\<rparr>) = (setMetadata t c s)\<lparr>view_transitions := v\<rparr>"
  by (simp add: setMetadata_def emit_def)

lemma createElement_flag:
  "createElement tag (s\<lparr>view_transitions := v\<rparr>) =
     (fst (createElement tag s), (snd (createElement tag s))\<lparr>view_transitions := v\<rparr>)"
  by (simp add: createElement_def emit_def)

lemma push_entry_flag:
  "push_entry route (s\<lparr>view_transitions := v\<rparr>) = (push_entry route s)\<lparr>view_transitions := v\<rparr>"
  by (simp add: push_entry_def emit_def)

lemma switch_route_flag:
  "switch_route loader route (s\<lparr>view_transitions := v\<rparr>) =
     (fst (switch_route loader route s), (snd (switch_route loader route s))\<lparr>view_transitions := v\<rparr>)"
proof (cases route rule: route_cases)
  case menu
  then show ?thesis
    by (simp add: switch_menu createElement_flag setMetadata_flag)
next
  case order
  then show ?thesis
    by (simp add: switch_order await_import_flag createElement_flag setMetadata_flag
          split: option.splits)
next
  case product
  then show ?thesis
    by (simp add: switch_product await_import_flag createElement_flag setMetadata_flag
          split: option.splits)
next
  case none
  then show ?thesis by (simp add: switch_none)
qed

lemma changePage_children:
  "main_children (changePage e s) =
     (case main_children s of [] \<Rightarrow> [e] | currentPage # others \<Rightarrow> others @ [e])"
  by (simp add: changePage_def emit_def split: list.splits)

lemma run_one_callback:
  assumes "transition_callbacks s = [e]"
  shows "main_children (run_transition_callbacks s) =
     (case main_children s of [] \<Rightarrow> [e] | currentPage # others \<Rightarrow> others @ [e])"
  using assms by (simp add: run_transition_callbacks_def changePage_children)

lemma run_no_callback:
  assumes "transition_callbacks s = []"
  shows "main_children (run_transition_callbacks s) = main_children s"
  using assms by (simp add: run_transition_callbacks_def)

section \<open>Properties of the store\<close>

lemma invoke_fields:
  "app (invoke k h st) = app st \<and> handlers (invoke k h st) = handlers st \<and>
   deliveries (invoke k h st) = deliveries st @ [(h, k, app st)]"
  by (simp add: invoke_def)

lemma notify_fields:
  "app (notify k hs st) = app st \<and> handlers (notify k hs st) = handlers st \<and>
   deliveries (notify k hs st) = deliveries st @ map (\<lambda>h. (h, k, app st)) hs"
proof (induction hs arbitrary: st)
  case Nil
  show ?case by simp
next
  case (Cons h hs)
  show ?case
    using Cons.IH [of "invoke k h st"] by (simp add: invoke_fields)
qed

lemma commit_fields:
  "read_field f (app (commit f v st)) = v \<and> handlers (commit f v st) = handlers st \<and>
   deliveries (commit f v st) = deliveries st"
  by (cases f) simp_all

section \<open>Properties of the module map\<close>

lemma coalesced_shape:
  assumes "coalesced spec s"
  shows "load_history spec s = [] \<or> load_history spec s = [FetchModule spec] \<or>
         (\<exists>r n. load_history spec s =
                  FetchModule spec # ModuleSettled spec r # replicate n (AwaitReturned spec r))"
  using assms
  by (auto simp: coalesced_def split: option.splits)

lemma coalesced_same:
  assumes "module_map s' spec = module_map s spec" "load_history spec s' = load_history spec s"
  shows "coalesced spec s' = coalesced spec s"
  unfolding coalesced_def settled_def assms by (rule refl)

lemma coalesced_emit:
  assumes "\<not> about spec e"
  shows "coalesced spec (emit e s) = coalesced spec s"
  using assms by (intro coalesced_same) (simp_all add: emit_def load_history_def)

lemma coalesced_push_entry: "coalesced spec (push_entry route s) = coalesced spec s"
  by (intro coalesced_same) (simp_all add: push_entry_def emit_def load_history_def)

lemma coalesced_setMetadata: "coalesced spec (setMetadata t c s) = coalesced spec s"
  by (intro coalesced_same) (simp_all add: setMetadata_def emit_def load_history_def)

lemma coalesced_createElement: "coalesced spec (snd (createElement tag s)) = coalesced spec s"
  by (intro coalesced_same) (simp_all add: createElement_def emit_def load_history_def)

lemma coalesced_mount: "coalesced spec (mount pe s) = coalesced spec s"
  by (intro coalesced_same)
     (simp_all add: mount_def changePage_def startViewTransition_def emit_def load_history_def
        split: option.splits list.splits)

lemma coalesced_assign_scrollX: "coalesced spec (assign_scrollX v s) = coalesced spec s"
  by (intro coalesced_same) (simp_all add: assign_scrollX_def emit_def load_history_def)

lemma coalesced_import_request:
  assumes "coalesced spec s"
  shows "coalesced spec (import_request x s)"
proof (cases "x = spec")
  case True
  then show ?thesis using assms
    by (auto simp: coalesced_def settled_def import_request_def emit_def load_history_def
          split: option.splits module_status.splits)
next
  case False
  have "coalesced spec (import_request x s) = coalesced spec s"
    using False
    by (intro coalesced_same)
       (simp_all add: import_request_def emit_def load_history_def split: option.splits)
  then show ?thesis using assms by simp
qed

lemma coalesced_load_finished:
  assumes "coalesced spec s"
  shows "coalesced spec (load_finished x r s)"
proof (cases "x = spec")
  case True
  then show ?thesis using assms
    by (auto simp: coalesced_def settled_def load_finished_def emit_def load_history_def
          split: option.splits module_status.splits)
next
  case False
  have "coalesced spec (load_finished x r s) = coalesced spec s"
    using False
    by (intro coalesced_same)
       (simp_all add: load_finished_def emit_def load_history_def
          split: option.splits module_status.splits)
  then show ?thesis using assms by simp
qed

lemma coalesced_resume:
  assumes "coalesced spec s"
  shows "coalesced spec (step loader (Resume x) s)"
proof (cases "settled x s")
  case None
  then show ?thesis using assms by simp
next
  case (Some r)
  show ?thesis
  proof (cases "x = spec")
    case True
    have st: "settled spec s = Some r" using Some True by simp
    then have h: "load_history spec s =
        FetchModule spec # ModuleSettled spec r #
          replicate (length (load_history spec s) - 2) (AwaitReturned spec r)"
      using assms by (simp add: coalesced_def)
    define n where "n = length (load_history spec s) - 2"
    have len: "length (load_history spec s) = Suc (Suc n)"
      using h unfolding n_def by (metis length_Cons length_replicate)
    have e: "load_history spec (emit (AwaitReturned spec r) s) =
             load_history spec s @ [AwaitReturned spec r]"
      by (simp add: load_history_def emit_def)
    have "load_history spec (emit (AwaitReturned spec r) s) =
          FetchModule spec # ModuleSettled spec r # replicate (Suc n) (AwaitReturned spec r)"
      using h unfolding e n_def [symmetric]
      by (simp add: replicate_append_same)
    moreover have "length (load_history spec (emit (AwaitReturned spec r) s)) - 2 = Suc n"
      unfolding e using len by simp
    moreover have "settled spec (emit (AwaitReturned spec r) s) = Some r"
      using st by (simp add: settled_def emit_def)
    ultimately have "coalesced spec (emit (AwaitReturned spec r) s)"
      by (simp add: coalesced_def)
    then show ?thesis using Some True by simp
  next
    case False
    then show ?thesis using Some assms by (simp add: coalesced_emit)
  qed
qed

lemma settled_after_load:
  "settled x (load_finished x r (import_request x s)) \<noteq> None"
  by (simp add: settled_def load_finished_def import_request_def emit_def
        split: option.splits module_status.splits)

lemma await_import_as_steps:
  "snd (await_import loader x s) =
     step loader (Resume x) (load_finished x (loader x) (import_request x s))"
  using settled_after_load [of x "loader x" s]
  by (auto simp: await_import_def Let_def)

lemma coalesced_await_import:
  assumes "coalesced spec s"
  shows "coalesced spec (snd (await_import loader x s))"
  unfolding await_import_as_steps
  by (intro coalesced_resume coalesced_load_finished coalesced_import_request assms)

lemma coalesced_switch_route:
  assumes "coalesced spec s"
  shows "coalesced spec (snd (switch_route loader route s))"
proof (cases route rule: route_cases)
  case menu
  then show ?thesis using assms
    by (simp add: switch_menu coalesced_setMetadata coalesced_createElement)
next
  case order
  then show ?thesis using coalesced_await_import [OF assms, of loader OrderPage_js]
    by (simp add: switch_order coalesced_setMetadata coalesced_createElement
          split: option.splits)
next
  case product
  have "coalesced spec (setMetadata ''Product Details'' ''#f0f'' s)"
    using assms by (simp add: coalesced_setMetadata)
  from coalesced_await_import [OF this, of loader DetailsPage_js] product
  show ?thesis
    by (simp add: switch_product coalesced_createElement split: option.splits)
next
  case none
  then show ?thesis using assms by (simp add: switch_none)
qed

lemma coalesced_go:
  assumes "coalesced spec s"
  shows "coalesced spec (snd (go loader route b s))"
proof (cases "b \<and> \<not> url_accepted s route")
  case True
  then show ?thesis using assms by (simp add: go_refused)
next
  case False
  then have ok: "\<not> b \<or> url_accepted s route" by blast
  define s1 where "s1 = (if b then push_entry route s else s)"
  have "coalesced spec s1"
    using assms by (simp add: s1_def coalesced_push_entry)
  from coalesced_switch_route [OF this, of loader route]
  have c: "coalesced spec (snd (switch_route loader route s1))" .
  have g: "snd (go loader route b s) =
      (case fst (switch_route loader route s1) of
         Inl err \<Rightarrow> snd (switch_route loader route s1)
       | Inr pe \<Rightarrow> assign_scrollX 0 (mount pe (snd (switch_route loader route s1))))"
    unfolding s1_def using ok by (cases b) (simp_all add: go_steps split: sum.splits)
  show ?thesis
    unfolding g using c
    by (cases "fst (switch_route loader route s1)")
       (simp_all add: coalesced_assign_scrollX coalesced_mount)
qed

lemma coalesced_step:
  assumes "coalesced spec s"
  shows "coalesced spec (step loader ev s)"
proof (cases ev)
  case (Ensure x)
  then show ?thesis using coalesced_import_request [OF assms] by simp
next
  case (LoadEnds x r)
  then show ?thesis using coalesced_load_finished [OF assms] by simp
next
  case (Resume x)
  then show ?thesis using coalesced_resume [OF assms] by simp
next
  case (Navigate route b)
  then show ?thesis using coalesced_go [OF assms] by simp
qed

lemma coalesced_run:
  assumes "coalesced spec s"
  shows "coalesced spec (run loader steps s)"
  using assms unfolding run_def
  by (induction steps arbitrary: s) (simp_all add: coalesced_step)


lemma count_list_filter_same:
  "P x \<Longrightarrow> count_list (filter P xs) x = count_list xs x"
  by (induction xs) auto

lemma count_load_history:
  "count_list (trace s) (FetchModule spec) = count_list (load_history spec s) (FetchModule spec)"
  by (simp add: load_history_def count_list_filter_same)

lemma coalesced_one_fetch:
  assumes "coalesced spec s"
  shows "count_list (trace s) (FetchModule spec) \<le> 1"
  using coalesced_shape [OF assms] unfolding count_load_history
  by (elim disjE exE) simp_all

lemma coalesced_await_after_settle:
  assumes "coalesced spec s" and t: "trace s = pre @ AwaitReturned spec r # post"
  shows "ModuleSettled spec r \<in> set pre"
proof -
  let ?F = "FetchModule spec"
  have h: "load_history spec s =
      filter (about spec) pre @ AwaitReturned spec r # filter (about spec) post"
    by (simp add: load_history_def t)
  from coalesced_shape [OF assms(1)]
  consider "load_history spec s = []" | "load_history spec s = [?F]"
    | r0 n where "load_history spec s =
        ?F # ModuleSettled spec r0 # replicate n (AwaitReturned spec r0)"
    by blast
  then show ?thesis
  proof cases
    case 1
    then show ?thesis using h by simp
  next
    case 2
    then show ?thesis using h by (auto simp: append_eq_Cons_conv)
  next
    case 3
    have "AwaitReturned spec r \<in> set (load_history spec s)"
      using h by simp
    then have r: "r = r0" using 3 by auto
    obtain ys where ys: "filter (about spec) pre = ?F # ys"
      using 3 h by (auto simp: append_eq_Cons_conv)
    then have "ys @ AwaitReturned spec r # filter (about spec) post =
               ModuleSettled spec r0 # replicate n (AwaitReturned spec r0)"
      using 3 h by simp
    then obtain zs where "ys = ModuleSettled spec r0 # zs"
      by (auto simp: append_eq_Cons_conv)
    then have "ModuleSettled spec r0 \<in> set (filter (about spec) pre)"
      using ys by simp
    then show ?thesis using r by simp
  qed
qed

lemma coalesced_one_result:
  assumes "coalesced spec s"
    and "ModuleSettled spec r \<in> set (trace s)" "ModuleSettled spec r' \<in> set (trace s)"
  shows "r = r'"
proof -
  have a: "ModuleSettled spec r \<in> set (load_history spec s)"
    and b: "ModuleSettled spec r' \<in> set (load_history spec s)"
    using assms(2,3) by (simp_all add: load_history_def)
  from coalesced_shape [OF assms(1)] a b show ?thesis
    by (elim disjE exE) auto
qed

lemma go_order_again:
  "count_list (trace (snd (go loader ''/order'' b2 (snd (go loader ''/order'' b1 s))))) (FetchModule x) =
   count_list (trace (snd (go loader ''/order'' b1 s))) (FetchModule x)"
proof -
  define s1 where "s1 = snd (go loader ''/order'' b1 s)"
  have loaded: "module_map s1 OrderPage_js \<noteq> None \<and> module_map s1 OrderPage_js \<noteq> Some Fetching"
    unfolding s1_def
    by (cases b1)
       (auto simp: go_steps url_accepted_known switch_order await_import_module_map mount_frame
          assign_scrollX_frame push_entry_frame setMetadata_def createElement_def emit_def
          split: option.splits module_status.splits)
  have "\<exists>es. trace (snd (go loader ''/order'' b2 s1)) = trace s1 @ es \<and>
          count_list es (FetchModule x) = 0"
    using loaded
    by (cases b2)
       (auto simp: go_steps url_accepted_known switch_order await_import_trace
          await_import_frame mount_trace
          assign_scrollX_frame push_entry_frame setMetadata_trace createElement_trace
          split: option.splits module_status.splits)
  then show ?thesis unfolding s1_def by auto
qed

section \<open>The claims\<close>

text \<open>
  C1. Route resolution is a function of the path alone. In every state the \<^verbatim>\<open>switch\<close>
  of \<^verbatim>\<open>Router.go\<close> gives the menu view for \<^verbatim>\<open>/\<close>; the order view for \<^verbatim>\<open>/order\<close>
  and, for a path that begins with \<^verbatim>\<open>/product-\<close>, the details view with the text after
  the last \<^verbatim>\<open>-\<close> as parameter (\<^verbatim>\<open>42\<close> for \<^verbatim>\<open>/product-42\<close>, \<^verbatim>\<open>abc\<close> for
  \<^verbatim>\<open>/product-abc\<close>), once the import it awaits has succeeded; and no view for any
  other path. Two runs of the \<^verbatim>\<open>switch\<close> on the same path that both complete, in
  whatever states and with whatever loaders, give the same view and parameter: the
  pair that \<open>resolve\<close> gives for the path.
\<close>

theorem route_resolution:
  "(\<exists>pe. fst (switch_route loader ''/'' s) = Inr (Some pe) \<and>
         view_of pe = (''menu-page'', None)) \<and>
   (fst (await_import loader OrderPage_js s) \<noteq> None \<longrightarrow>
      (\<exists>pe. fst (switch_route loader ''/order'' s) = Inr (Some pe) \<and>
            view_of pe = (''order-page'', None))) \<and>
   (startsWith route ''/product-'' \<and> fst (await_import loader DetailsPage_js s) \<noteq> None \<longrightarrow>
      (\<exists>pe pre p. route = pre @ CHR ''-'' # p \<and> CHR ''-'' \<notin> set p \<and>
                  fst (switch_route loader route s) = Inr (Some pe) \<and>
                  view_of pe = (''details-page'', Some p))) \<and>
   (fst (await_import loader DetailsPage_js s) \<noteq> None \<longrightarrow>
      (\<exists>pe. fst (switch_route loader ''/product-42'' s) = Inr (Some pe) \<and>
            view_of pe = (''details-page'', Some ''42'')) \<and>
      (\<exists>pe. fst (switch_route loader ''/product-abc'' s) = Inr (Some pe) \<and>
            view_of pe = (''details-page'', Some ''abc''))) \<and>
   (route \<noteq> ''/'' \<and> route \<noteq> ''/order'' \<and> \<not> startsWith route ''/product-'' \<longrightarrow>
      fst (switch_route loader route s) = Inr None) \<and>
   (fst (switch_route loader route s) = Inr pe \<and>
    fst (switch_route loader' route s') = Inr pe' \<longrightarrow>
      map_option view_of pe = map_option view_of pe') \<and>
   (fst (switch_route loader route s) = Inr pe \<longrightarrow> map_option view_of pe = resolve route) \<and>
   resolve ''/'' = Some (''menu-page'', None) \<and>
   resolve ''/order'' = Some (''order-page'', None) \<and>
   resolve ''/product-42'' = Some (''details-page'', Some ''42'') \<and>
   resolve ''/product-abc'' = Some (''details-page'', Some ''abc'') \<and>
   (route \<noteq> ''/'' \<and> route \<noteq> ''/order'' \<and> \<not> startsWith route ''/product-'' \<longrightarrow>
      resolve route = None)"
proof -
  have menu: "\<exists>pe. fst (switch_route loader ''/'' s) = Inr (Some pe) \<and>
         view_of pe = (''menu-page'', None)"
    by (simp add: switch_menu view_of_def)
  have order: "\<exists>pe. fst (switch_route loader ''/order'' s) = Inr (Some pe) \<and>
            view_of pe = (''order-page'', None)"
    if "fst (await_import loader OrderPage_js s) \<noteq> None"
    using that by (auto simp: switch_order view_of_def split: option.splits)
  have same_result: "fst (await_import loader x (setMetadata t c s)) =
      fst (await_import loader x s)" for x t c
    by (simp add: await_import_result setMetadata_def emit_def)
  have details: "\<exists>pe. fst (switch_route loader r s) = Inr (Some pe) \<and>
         view_of pe = (''details-page'', Some (substring r (lastIndexOf r CHR ''-'' + 1)))"
    if "startsWith r ''/product-''" "fst (await_import loader DetailsPage_js s) \<noteq> None" for r
    using that(2)
    by (auto simp: switch_product [OF that(1)] same_result view_of_def split: option.splits)
  have product: "\<exists>pe pre p. route = pre @ CHR ''-'' # p \<and> CHR ''-'' \<notin> set p \<and>
                  fst (switch_route loader route s) = Inr (Some pe) \<and>
                  view_of pe = (''details-page'', Some p)"
    if h: "startsWith route ''/product-''" "fst (await_import loader DetailsPage_js s) \<noteq> None"
  proof -
    from product_suffix [OF h(1)] obtain pre p where
      p: "route = pre @ CHR ''-'' # p" "CHR ''-'' \<notin> set p"
         "substring route (lastIndexOf route CHR ''-'' + 1) = p"
      by blast
    from details [OF h] obtain pe where
      "fst (switch_route loader route s) = Inr (Some pe)"
      "view_of pe = (''details-page'', Some p)"
      using p(3) by auto
    with p(1,2) show ?thesis by blast
  qed
  have p42: "startsWith ''/product-42'' ''/product-''"
    and pabc: "startsWith ''/product-abc'' ''/product-''"
    by (simp_all add: startsWith_def)
  have s42: "substring ''/product-42'' (lastIndexOf ''/product-42'' CHR ''-'' + 1) = ''42''"
    and sabc: "substring ''/product-abc'' (lastIndexOf ''/product-abc'' CHR ''-'' + 1) = ''abc''"
    by (simp_all add: substring_def Let_def)
  have examples: "(\<exists>pe. fst (switch_route loader ''/product-42'' s) = Inr (Some pe) \<and>
            view_of pe = (''details-page'', Some ''42'')) \<and>
      (\<exists>pe. fst (switch_route loader ''/product-abc'' s) = Inr (Some pe) \<and>
            view_of pe = (''details-page'', Some ''abc''))"
    if h: "fst (await_import loader DetailsPage_js s) \<noteq> None"
    using details [OF p42 h] details [OF pabc h] unfolding s42 sabc by blast
  have none: "fst (switch_route loader route s) = Inr None"
    if "route \<noteq> ''/'' \<and> route \<noteq> ''/order'' \<and> \<not> startsWith route ''/product-''"
    using that by (simp add: switch_none)
  have link: "map_option view_of x = resolve route"
    if "fst (switch_route l route t) = Inr x" for l t x
    using that switch_route_view [of l route t x "snd (switch_route l route t)"]
    by (simp add: prod_eq_iff)
  have det: "map_option view_of pe = map_option view_of pe'"
    if "fst (switch_route loader route s) = Inr pe \<and>
        fst (switch_route loader' route s') = Inr pe'"
    using that link [of loader s pe] link [of loader' s' pe'] by simp
  have r42: "resolve ''/product-42'' = Some (''details-page'', Some ''42'')"
    using p42 s42 by (simp add: resolve_def)
  have rabc: "resolve ''/product-abc'' = Some (''details-page'', Some ''abc'')"
    using pabc sabc by (simp add: resolve_def)
  have rnone: "resolve route = None"
    if "route \<noteq> ''/'' \<and> route \<noteq> ''/order'' \<and> \<not> startsWith route ''/product-''"
    using that by (simp add: resolve_def)
  have r0: "resolve ''/'' = Some (''menu-page'', None)"
    and r1: "resolve ''/order'' = Some (''order-page'', None)"
    by (simp_all add: resolve_def)
  show ?thesis
    using menu order product examples none det link [of loader s pe] r0 r1 r42 rabc rnone
    by blast
qed

theorem route_resolution_witness:
  "fst (await_import loads_all OrderPage_js blank_page) \<noteq> None \<and>
   startsWith ''/product-7-x'' ''/product-'' \<and>
   fst (await_import loads_all DetailsPage_js blank_page) \<noteq> None \<and>
   fst (switch_route loads_all ''/product-7-x'' blank_page) =
     Inr (Some \<lparr>elem_id = 0, tagName = ''details-page'', productId = Some ''x''\<rparr>) \<and>
   ''/unknown'' \<noteq> ''/'' \<and> ''/unknown'' \<noteq> ''/order'' \<and>
   \<not> startsWith ''/unknown'' ''/product-'' \<and>
   fst (switch_route loads_all ''/unknown'' blank_page) = Inr None \<and>
   fst (switch_route loads_all ''/order'' blank_page) =
     Inr (Some \<lparr>elem_id = 0, tagName = ''order-page'', productId = None\<rparr>) \<and>
   map_option view_of (Some \<lparr>elem_id = 0, tagName = ''order-page'', productId = None\<rparr>) =
     resolve ''/order''"
proof -
  have m: "module_map blank_page = Map.empty" "next_elem blank_page = 0"
    by (simp_all add: blank_page_def)
  have o: "fst (await_import loads_all OrderPage_js blank_page) \<noteq> None"
    and d: "fst (await_import loads_all DetailsPage_js blank_page) \<noteq> None"
    by (simp_all add: await_import_result m loads_all_def)
  have a: "startsWith ''/product-7-x'' ''/product-''"
    by (simp add: startsWith_def)
  have b: "''/unknown'' \<noteq> ''/'' \<and> ''/unknown'' \<noteq> ''/order'' \<and>
           \<not> startsWith ''/unknown'' ''/product-''"
    by (simp add: startsWith_def)
  have c: "fst (switch_route loads_all ''/order'' blank_page) =
           Inr (Some \<lparr>elem_id = 0, tagName = ''order-page'', productId = None\<rparr>)"
    by (simp add: switch_order await_import_result m loads_all_def)
  have e: "fst (switch_route loads_all ''/product-7-x'' blank_page) =
     Inr (Some \<lparr>elem_id = 0, tagName = ''details-page'', productId = Some ''x''\<rparr>)"
    by (simp add: switch_product [OF a] await_import_result m loads_all_def
          setMetadata_def emit_def substring_def Let_def)
  note t1 = route_resolution [of loads_all blank_page "''/unknown''"
      "Some \<lparr>elem_id = 0, tagName = ''order-page'', productId = None\<rparr>" loads_all blank_page None]
  note t2 = route_resolution [of loads_all blank_page "''/order''"
      "Some \<lparr>elem_id = 0, tagName = ''order-page'', productId = None\<rparr>" loads_all blank_page
      "Some \<lparr>elem_id = 0, tagName = ''order-page'', productId = None\<rparr>"]
  have n: "fst (switch_route loads_all ''/unknown'' blank_page) = Inr None"
    using t1 b by blast
  have l: "map_option view_of (Some \<lparr>elem_id = 0, tagName = ''order-page'', productId = None\<rparr>) =
     resolve ''/order''"
    using t2 c by blast
  show ?thesis using o a d e b n c l by blast
qed

text \<open>
  C3, as stated, fails: \<^verbatim>\<open>//unknown\<close> is not \<^verbatim>\<open>/\<close>, not \<^verbatim>\<open>/order\<close> and does not
  begin with \<^verbatim>\<open>/product-\<close>, yet \<^verbatim>\<open>Router.go('//unknown')\<close> on the blank page is
  rejected: \<^verbatim>\<open>history.pushState\<close> refuses the URL, which names another host, and
  throws a \<^verbatim>\<open>SecurityError\<close>.
\<close>

theorem unroutable_push_refused:
  "''//unknown'' \<noteq> ''/'' \<and> ''//unknown'' \<noteq> ''/order'' \<and>
   \<not> startsWith ''//unknown'' ''/product-'' \<and>
   fst (go loads_all ''//unknown'' True blank_page) = Rejected SecurityError"
proof -
  have "\<not> url_accepted blank_page ''//unknown''"
    by (simp add: url_accepted_def path_absolute_def blank_page_def)
  then show ?thesis
    by (simp add: go_refused startsWith_def)
qed

text \<open>
  C3, amended. On a path that is not \<^verbatim>\<open>/\<close>, not \<^verbatim>\<open>/order\<close> and does not begin with
  \<^verbatim>\<open>/product-\<close>, \<^verbatim>\<open>Router.go\<close> leaves the display slot as it was: the mounted
  elements stay, no swap is scheduled, no element is created and the module map is
  untouched. It ends without an error when no history entry is asked for or the browser
  accepts the path as a URL for the document; the only effects are then the history
  push (when asked for) and the assignment to \<^verbatim>\<open>window.scrollX\<close>, so no module load
  starts. When the entry is asked for and the browser refuses the URL, the push throws
  a \<^verbatim>\<open>SecurityError\<close>, \<^verbatim>\<open>Router.go\<close> is rejected with it and nothing at all changes.
\<close>

theorem unroutable_is_noop:
  assumes "route \<noteq> ''/''" "route \<noteq> ''/order''" "\<not> startsWith route ''/product-''"
  shows "main_children (snd (go loader route b s)) = main_children s \<and>
         transition_callbacks (snd (go loader route b s)) = transition_callbacks s \<and>
         next_elem (snd (go loader route b s)) = next_elem s \<and>
         module_map (snd (go loader route b s)) = module_map s \<and>
         (\<not> b \<or> url_accepted s route \<longrightarrow>
            fst (go loader route b s) = Fulfilled \<and>
            trace (snd (go loader route b s)) =
              trace s @ (if b then [PushState route] else []) @ [AssignScrollX]) \<and>
         (b \<and> \<not> url_accepted s route \<longrightarrow>
            go loader route b s = (Rejected SecurityError, s))"
proof (cases "b \<and> \<not> url_accepted s route")
  case True
  then show ?thesis by (simp add: go_refused)
next
  case False
  then have ok: "\<not> b \<or> url_accepted s route" by blast
  show ?thesis
    using assms ok
    by (cases b)
       (simp_all add: go_steps switch_none mount_def assign_scrollX_frame push_entry_frame)
qed

theorem unroutable_is_noop_witness:
  "''/unknown'' \<noteq> ''/'' \<and> ''/unknown'' \<noteq> ''/order'' \<and>
   \<not> startsWith ''/unknown'' ''/product-'' \<and>
   url_accepted
     (blank_page\<lparr>main_children := [\<lparr>elem_id = 0, tagName = ''menu-page'', productId = None\<rparr>],
                  next_elem := 1\<rparr>) ''/unknown'' \<and>
   fst (go loads_all ''/unknown'' True
          (blank_page\<lparr>main_children := [\<lparr>elem_id = 0, tagName = ''menu-page'', productId = None\<rparr>],
                       next_elem := 1\<rparr>)) = Fulfilled \<and>
   main_children (snd (go loads_all ''/unknown'' True
          (blank_page\<lparr>main_children := [\<lparr>elem_id = 0, tagName = ''menu-page'', productId = None\<rparr>],
                       next_elem := 1\<rparr>))) =
     [\<lparr>elem_id = 0, tagName = ''menu-page'', productId = None\<rparr>] \<and>
   trace (snd (go loads_all ''/unknown'' True
          (blank_page\<lparr>main_children := [\<lparr>elem_id = 0, tagName = ''menu-page'', productId = None\<rparr>],
                       next_elem := 1\<rparr>))) =
     [PushState ''/unknown'', AssignScrollX] \<and>
   ''//unknown'' \<noteq> ''/'' \<and> ''//unknown'' \<noteq> ''/order'' \<and>
   \<not> startsWith ''//unknown'' ''/product-'' \<and>
   \<not> url_accepted blank_page ''//unknown'' \<and>
   go loads_all ''//unknown'' True blank_page = (Rejected SecurityError, blank_page)"
proof -
  let ?s = "blank_page\<lparr>main_children := [\<lparr>elem_id = 0, tagName = ''menu-page'', productId = None\<rparr>],
                     next_elem := 1\<rparr>"
  have a: "''/unknown'' \<noteq> ''/''" by simp
  have b: "''/unknown'' \<noteq> ''/order''" by simp
  have c: "\<not> startsWith ''/unknown'' ''/product-''" by (simp add: startsWith_def)
  have u: "url_accepted ?s ''/unknown''"
    by (simp add: url_accepted_def path_absolute_def)
  have f: "main_children ?s = [\<lparr>elem_id = 0, tagName = ''menu-page'', productId = None\<rparr>]"
    "trace ?s = []"
    by (simp_all add: blank_page_def)
  note t = unroutable_is_noop [OF a b c, of loads_all True ?s]
  have t1: "main_children (snd (go loads_all ''/unknown'' True ?s)) =
      [\<lparr>elem_id = 0, tagName = ''menu-page'', productId = None\<rparr>]"
    using t f(1) by simp
  have t2: "fst (go loads_all ''/unknown'' True ?s) = Fulfilled \<and>
      trace (snd (go loads_all ''/unknown'' True ?s)) = [PushState ''/unknown'', AssignScrollX]"
    using t u f(2) by simp
  have a': "''//unknown'' \<noteq> ''/''" by simp
  have b': "''//unknown'' \<noteq> ''/order''" by simp
  have c': "\<not> startsWith ''//unknown'' ''/product-''" by (simp add: startsWith_def)
  have u': "\<not> url_accepted blank_page ''//unknown''"
    by (simp add: url_accepted_def path_absolute_def blank_page_def)
  have t3: "go loads_all ''//unknown'' True blank_page = (Rejected SecurityError, blank_page)"
    using unroutable_is_noop [OF a' b' c', of loads_all True blank_page] u' by blast
  show ?thesis using a b c u t1 t2 a' b' c' u' t3 by blast
qed

text \<open>
  C10. The \<^verbatim>\<open>popstate\<close> listener reads \<^verbatim>\<open>event.state.route\<close> without a check: when
  the state of the entry is \<^verbatim>\<open>null\<close>, it throws a \<^verbatim>\<open>TypeError\<close>, \<^verbatim>\<open>Router.go\<close> is
  not called and nothing changes.
\<close>

theorem popstate_null_state_throws:
  "popstate_listener loader None s = (Inl TypeError, s)"
  by (simp add: popstate_listener_def)

text \<open>
  C4, as stated, fails: the initial call \<^verbatim>\<open>Router.go(location.pathname)\<close> with the
  path \<^verbatim>\<open>//unknown\<close> is initiated by the code, not by a replay, yet it pushes no
  entry: \<^verbatim>\<open>history.pushState\<close> refuses the URL and throws, and the history is what it
  was.
\<close>

theorem initiated_push_refused:
  "fst (init_route loads_all ''//unknown'' blank_page) = Rejected SecurityError \<and>
   history (snd (init_route loads_all ''//unknown'' blank_page)) = history blank_page"
proof -
  have "\<not> url_accepted blank_page ''//unknown''"
    by (simp add: url_accepted_def path_absolute_def blank_page_def)
  then show ?thesis
    by (simp add: init_route_def go_refused)
qed

text \<open>
  C4, amended. \<^verbatim>\<open>Router.go\<close> pushes the entry \<^verbatim>\<open>{ route }\<close> exactly when
  \<^verbatim>\<open>addToHistory\<close> is true and the browser accepts the route as a URL for the
  document, which it does for \<^verbatim>\<open>/\<close>, for \<^verbatim>\<open>/order\<close> and for every route that begins
  with \<^verbatim>\<open>/product-\<close>. The push is then the first effect and no later effect is a push;
  the entry is there whether the promise is fulfilled or rejected afterwards. When the
  browser refuses the URL, the push throws a \<^verbatim>\<open>SecurityError\<close>, \<^verbatim>\<open>Router.go\<close> is
  rejected with it before it looks at the route, and nothing changes. The
  \<^verbatim>\<open>popstate\<close> listener calls \<^verbatim>\<open>Router.go\<close> with the recorded route and
  \<^verbatim>\<open>addToHistory = false\<close>, so a replay leaves the history as it is; the click listener
  and the initial call use the default \<^verbatim>\<open>true\<close>.
\<close>

theorem history_push_iff_initiated:
  "history (snd (go loader route b s)) =
     (if b \<and> url_accepted s route
      then history s @ [\<lparr>entry_state = Some (HistoryState route), entry_url = route\<rparr>]
      else history s) \<and>
   (\<exists>rest. trace (snd (go loader route b s)) =
             trace s @ (if b \<and> url_accepted s route then [PushState route] else []) @ rest \<and>
           \<not> list_ex is_push rest) \<and>
   (route = ''/'' \<or> route = ''/order'' \<or> startsWith route ''/product-'' \<longrightarrow>
      url_accepted s route) \<and>
   (\<not> url_accepted s route \<longrightarrow> go loader route True s = (Rejected SecurityError, s)) \<and>
   (url_accepted s route \<and> fst (go loader route True s) = Rejected e \<longrightarrow>
      history (snd (go loader route True s)) =
        history s @ [\<lparr>entry_state = Some (HistoryState route), entry_url = route\<rparr>]) \<and>
   popstate_listener loader (Some st) s =
     (Inr (fst (go loader (state_route st) False s)), snd (go loader (state_route st) False s)) \<and>
   history (snd (popstate_listener loader ev s)) = history s \<and>
   navlink_click loader href s = go loader href True s \<and>
   init_route loader pathname s = go loader pathname True s"
proof -
  have t: "\<exists>rest. trace (snd (go loader route b s)) =
             trace s @ (if b \<and> url_accepted s route then [PushState route] else []) @ rest \<and>
           \<not> list_ex is_push rest"
    using go_trace [of loader route b s] by blast
  have k: "url_accepted s route"
    if "route = ''/'' \<or> route = ''/order'' \<or> startsWith route ''/product-''"
    using that url_accepted_known by blast
  have r: "go loader route True s = (Rejected SecurityError, s)" if "\<not> url_accepted s route"
    using that by (simp add: go_refused)
  have p: "popstate_listener loader (Some x) s =
     (Inr (fst (go loader (state_route x) False s)), snd (go loader (state_route x) False s))"
    for x
    by (simp add: popstate_listener_def split: prod.splits)
  have h: "history (snd (popstate_listener loader ev s)) = history s"
  proof (cases ev)
    case None
    then show ?thesis by (simp add: popstate_listener_def)
  next
    case (Some x)
    then show ?thesis by (simp add: p go_history)
  qed
  show ?thesis
    using t k r p h by (simp add: go_history navlink_click_def init_route_def)
qed

theorem history_push_iff_initiated_witness:
  "url_accepted blank_page ''/order'' \<and>
   fst (go loads_none ''/order'' True blank_page) = Rejected (ImportFailed OrderPage_js) \<and>
   history (snd (go loads_none ''/order'' True blank_page)) =
     [\<lparr>entry_state = None, entry_url = ''/''\<rparr>,
      \<lparr>entry_state = Some (HistoryState ''/order''), entry_url = ''/order''\<rparr>] \<and>
   history (snd (popstate_listener loads_none (Some (HistoryState ''/order'')) blank_page)) =
     [\<lparr>entry_state = None, entry_url = ''/''\<rparr>] \<and>
   \<not> url_accepted blank_page ''//unknown'' \<and>
   go loads_none ''//unknown'' True blank_page = (Rejected SecurityError, blank_page)"
proof -
  have u: "url_accepted blank_page ''/order''"
    by (rule url_accepted_known)
  have m: "module_map blank_page = Map.empty"
    by (simp add: blank_page_def)
  have r: "fst (go loads_none ''/order'' True blank_page) = Rejected (ImportFailed OrderPage_js)"
    by (simp add: go_steps u switch_order await_import_result push_entry_frame m loads_none_def)
  have hb: "history blank_page = [\<lparr>entry_state = None, entry_url = ''/''\<rparr>]"
    by (simp add: blank_page_def)
  note t = history_push_iff_initiated [of loads_none "''/order''" True blank_page
        "ImportFailed OrderPage_js" "HistoryState ''/order''" "Some (HistoryState ''/order'')"
        "''/''" "''/''"]
  have a: "history (snd (go loads_none ''/order'' True blank_page)) =
     [\<lparr>entry_state = None, entry_url = ''/''\<rparr>,
      \<lparr>entry_state = Some (HistoryState ''/order''), entry_url = ''/order''\<rparr>]"
    using t [THEN conjunct1] u hb by simp
  have b: "history (snd (popstate_listener loads_none (Some (HistoryState ''/order''))
             blank_page)) = [\<lparr>entry_state = None, entry_url = ''/''\<rparr>]"
    using t [THEN conjunct2, THEN conjunct2, THEN conjunct2, THEN conjunct2, THEN conjunct2,
        THEN conjunct2, THEN conjunct1] hb
    by simp
  have u': "\<not> url_accepted blank_page ''//unknown''"
    by (simp add: url_accepted_def path_absolute_def blank_page_def)
  have c: "go loads_none ''//unknown'' True blank_page = (Rejected SecurityError, blank_page)"
    using history_push_iff_initiated [of loads_none "''//unknown''" True blank_page
        "ImportFailed OrderPage_js" "HistoryState ''/order''" "Some (HistoryState ''/order'')"
        "''/''" "''/''"] u'
    by blast
  show ?thesis using u r a b u' c by blast
qed

text \<open>
  C5. When the import of the navigated-to view fails, \<^verbatim>\<open>Router.go\<close> is rejected with
  that failure (nothing catches it). Whenever \<^verbatim>\<open>Router.go\<close> is rejected, the display
  slot holds what it held, no swap is scheduled, no element has been created, and the
  cause is a failed import of the order or of the details module, or a history push
  that the browser refused.
\<close>

theorem load_failure_keeps_view:
  "(fst (await_import loader OrderPage_js s) = None \<longrightarrow>
      fst (go loader ''/order'' b s) = Rejected (ImportFailed OrderPage_js)) \<and>
   (startsWith route ''/product-'' \<and> fst (await_import loader DetailsPage_js s) = None \<longrightarrow>
      fst (go loader route b s) = Rejected (ImportFailed DetailsPage_js)) \<and>
   (fst (go loader route b s) = Rejected e \<longrightarrow>
      main_children (snd (go loader route b s)) = main_children s \<and>
      transition_callbacks (snd (go loader route b s)) = transition_callbacks s \<and>
      next_elem (snd (go loader route b s)) = next_elem s \<and>
      (\<exists>es. trace (snd (go loader route b s)) = trace s @ es \<and>
            \<not> list_ex is_create es \<and> \<not> list_ex is_swap es) \<and>
      (route = ''/order'' \<and> e = ImportFailed OrderPage_js \<and>
         fst (await_import loader OrderPage_js s) = None \<or>
       startsWith route ''/product-'' \<and> e = ImportFailed DetailsPage_js \<and>
         fst (await_import loader DetailsPage_js s) = None \<or>
       b \<and> e = SecurityError \<and> route \<noteq> ''/order'' \<and> \<not> startsWith route ''/product-'' \<and>
         \<not> url_accepted s route))"
proof -
  let ?s1 = "\<lambda>r. if b then push_entry r s else s"
  have mm: "module_map (?s1 r) = module_map s" for r
    by (simp add: push_entry_frame)
  have res: "fst (await_import loader spec (?s1 r)) = fst (await_import loader spec s)" for spec r
    by (simp only: await_import_result mm)
  have res2: "fst (await_import loader spec (setMetadata t c (?s1 r))) =
              fst (await_import loader spec s)" for spec r t c
    by (simp add: await_import_result push_entry_frame setMetadata_def emit_def)
  have a: "fst (go loader ''/order'' b s) = Rejected (ImportFailed OrderPage_js)"
    if "fst (await_import loader OrderPage_js s) = None"
    using that res [of OrderPage_js "''/order''"]
    by (cases b) (simp_all add: go_steps url_accepted_known switch_order)
  have c: "fst (go loader route b s) = Rejected (ImportFailed DetailsPage_js)"
    if "startsWith route ''/product-''" "fst (await_import loader DetailsPage_js s) = None"
    using that res2 [of DetailsPage_js "''Product Details''" "''#f0f''" route]
    by (cases b) (simp_all add: go_steps url_accepted_known switch_product)
  have d: "main_children (snd (go loader route b s)) = main_children s \<and>
      transition_callbacks (snd (go loader route b s)) = transition_callbacks s \<and>
      next_elem (snd (go loader route b s)) = next_elem s \<and>
      (\<exists>es. trace (snd (go loader route b s)) = trace s @ es \<and>
            \<not> list_ex is_create es \<and> \<not> list_ex is_swap es) \<and>
      (route = ''/order'' \<and> e = ImportFailed OrderPage_js \<and>
         fst (await_import loader OrderPage_js s) = None \<or>
       startsWith route ''/product-'' \<and> e = ImportFailed DetailsPage_js \<and>
         fst (await_import loader DetailsPage_js s) = None \<or>
       b \<and> e = SecurityError \<and> route \<noteq> ''/order'' \<and> \<not> startsWith route ''/product-'' \<and>
         \<not> url_accepted s route)"
    if rej: "fst (go loader route b s) = Rejected e"
  proof -
    obtain es where es:
      "trace (snd (go loader route b s)) =
         trace s @ (if b \<and> url_accepted s route then [PushState route] else []) @ es"
      "\<not> list_ex is_create es" "\<not> list_ex is_swap es"
      using go_trace [of loader route b s] rej by blast
    have tr: "\<exists>es. trace (snd (go loader route b s)) = trace s @ es \<and>
            \<not> list_ex is_create es \<and> \<not> list_ex is_swap es"
    proof (intro exI conjI)
      show "trace (snd (go loader route b s)) =
              trace s @ ((if b \<and> url_accepted s route then [PushState route] else []) @ es)"
        using es(1) by simp
      show "\<not> list_ex is_create
              ((if b \<and> url_accepted s route then [PushState route] else []) @ es)"
        using es(2) by simp
      show "\<not> list_ex is_swap
              ((if b \<and> url_accepted s route then [PushState route] else []) @ es)"
        using es(3) by simp
    qed
    have why: "route = ''/order'' \<and> e = ImportFailed OrderPage_js \<and>
         fst (await_import loader OrderPage_js s) = None \<or>
       startsWith route ''/product-'' \<and> e = ImportFailed DetailsPage_js \<and>
         fst (await_import loader DetailsPage_js s) = None \<or>
       b \<and> e = SecurityError \<and> route \<noteq> ''/order'' \<and> \<not> startsWith route ''/product-'' \<and>
         \<not> url_accepted s route"
    proof (cases "b \<and> \<not> url_accepted s route")
      case True
      then have "e = SecurityError"
        using rej by (simp add: go_refused)
      moreover have "route \<noteq> ''/order''" "\<not> startsWith route ''/product-''"
        using True url_accepted_known by blast+
      ultimately show ?thesis using True by blast
    next
      case False
      then have ok: "\<not> b \<or> url_accepted s route" by blast
      have sw: "fst (switch_route loader route (?s1 route)) = Inl e"
        using rej ok by (cases b) (simp_all add: go_steps split: sum.splits)
      have "route = ''/order'' \<and> e = ImportFailed OrderPage_js \<and>
           fst (await_import loader OrderPage_js s) = None \<or>
         startsWith route ''/product-'' \<and> e = ImportFailed DetailsPage_js \<and>
           fst (await_import loader DetailsPage_js s) = None"
        using switch_route_rejected [OF sw] res [of _ route] by simp
      then show ?thesis by blast
    qed
    show ?thesis using go_rejected [OF rej] tr why by blast
  qed
  show ?thesis using a c d by blast
qed

theorem load_failure_keeps_view_witness:
  "startsWith ''/product-42'' ''/product-'' \<and>
   fst (await_import loads_none DetailsPage_js
     (blank_page\<lparr>main_children := [\<lparr>elem_id = 0, tagName = ''menu-page'', productId = None\<rparr>],
                  next_elem := 1\<rparr>)) = None \<and>
   fst (go loads_none ''/product-42'' True
     (blank_page\<lparr>main_children := [\<lparr>elem_id = 0, tagName = ''menu-page'', productId = None\<rparr>],
                  next_elem := 1\<rparr>)) = Rejected (ImportFailed DetailsPage_js) \<and>
   main_children (snd (go loads_none ''/product-42'' True
     (blank_page\<lparr>main_children := [\<lparr>elem_id = 0, tagName = ''menu-page'', productId = None\<rparr>],
                  next_elem := 1\<rparr>))) =
     [\<lparr>elem_id = 0, tagName = ''menu-page'', productId = None\<rparr>] \<and>
   next_elem (snd (go loads_none ''/product-42'' True
     (blank_page\<lparr>main_children := [\<lparr>elem_id = 0, tagName = ''menu-page'', productId = None\<rparr>],
                  next_elem := 1\<rparr>))) = 1"
proof -
  let ?s = "blank_page\<lparr>main_children := [\<lparr>elem_id = 0, tagName = ''menu-page'', productId = None\<rparr>],
                  next_elem := 1\<rparr>"
  have a: "startsWith ''/product-42'' ''/product-''"
    by (simp add: startsWith_def)
  have b: "fst (await_import loads_none DetailsPage_js ?s) = None"
    by (simp add: await_import_result blank_page_def loads_none_def)
  have f: "main_children ?s = [\<lparr>elem_id = 0, tagName = ''menu-page'', productId = None\<rparr>]"
    "next_elem ?s = 1"
    by simp_all
  note t = load_failure_keeps_view [of loads_none ?s True "''/product-42''"
        "ImportFailed DetailsPage_js"]
  have r: "fst (go loads_none ''/product-42'' True ?s) = Rejected (ImportFailed DetailsPage_js)"
    using t a b by blast
  have k: "main_children (snd (go loads_none ''/product-42'' True ?s)) = main_children ?s \<and>
      next_elem (snd (go loads_none ''/product-42'' True ?s)) = next_elem ?s"
    using t r by blast
  show ?thesis using a b r k f by simp
qed

text \<open>
  C8. The swap gives the same display slot with and without the view-transition
  capability: from a state with no swap pending, the slot after \<^verbatim>\<open>Router.go\<close> and the
  run of the update callback, with the capability, is the slot after \<^verbatim>\<open>Router.go\<close>
  without it, and the promise ends the same way.
\<close>

theorem swap_independent_of_transition:
  assumes "transition_callbacks s = []"
  shows "fst (go loader route b (s\<lparr>view_transitions := True\<rparr>)) =
           fst (go loader route b (s\<lparr>view_transitions := False\<rparr>)) \<and>
         main_children (run_transition_callbacks
             (snd (go loader route b (s\<lparr>view_transitions := True\<rparr>)))) =
           main_children (snd (go loader route b (s\<lparr>view_transitions := False\<rparr>)))"
proof (cases "b \<and> \<not> url_accepted s route")
  case True
  have u: "url_accepted (s\<lparr>view_transitions := v\<rparr>) route = url_accepted s route" for v
    by (simp add: url_accepted_def)
  have g: "go loader route b (s\<lparr>view_transitions := v\<rparr>) =
      (Rejected SecurityError, s\<lparr>view_transitions := v\<rparr>)" for v
    using True by (simp add: go_refused u)
  show ?thesis
    using assms by (simp add: g run_no_callback)
next
  case False
  then have ok: "\<not> b \<or> url_accepted s route" by blast
  have u: "url_accepted (s\<lparr>view_transitions := v\<rparr>) route = url_accepted s route" for v
    by (simp add: url_accepted_def)
  define s1 where "s1 = (if b then push_entry route s else s)"
  define r where "r = fst (switch_route loader route s1)"
  define s2 where "s2 = snd (switch_route loader route s1)"
  have p: "(if b then push_entry route (s\<lparr>view_transitions := v\<rparr>) else s\<lparr>view_transitions := v\<rparr>) =
           s1\<lparr>view_transitions := v\<rparr>" for v
    by (simp add: s1_def push_entry_flag)
  have g0: "go loader route b (s\<lparr>view_transitions := v\<rparr>) =
     (case fst (switch_route loader route
            (if b then push_entry route (s\<lparr>view_transitions := v\<rparr>)
             else s\<lparr>view_transitions := v\<rparr>)) of
        Inl err \<Rightarrow>
          (Rejected err,
           snd (switch_route loader route
            (if b then push_entry route (s\<lparr>view_transitions := v\<rparr>)
             else s\<lparr>view_transitions := v\<rparr>)))
      | Inr pe \<Rightarrow>
          (Fulfilled,
           assign_scrollX 0
             (mount pe (snd (switch_route loader route
            (if b then push_entry route (s\<lparr>view_transitions := v\<rparr>)
             else s\<lparr>view_transitions := v\<rparr>))))))" for v
    using ok by (cases b) (simp_all add: go_steps u)
  have g: "go loader route b (s\<lparr>view_transitions := v\<rparr>) =
     (case r of
        Inl err \<Rightarrow> (Rejected err, s2\<lparr>view_transitions := v\<rparr>)
      | Inr pe \<Rightarrow> (Fulfilled, assign_scrollX 0 (mount pe (s2\<lparr>view_transitions := v\<rparr>))))" for v
    unfolding r_def s2_def
    by (simp only: g0 p switch_route_flag fst_conv snd_conv)
  have c2: "transition_callbacks s2 = []"
    unfolding s2_def s1_def
    using assms by (cases b) (simp_all add: switch_route_frame push_entry_frame)
  show ?thesis
  proof (cases r)
    case (Inl err)
    then show ?thesis
      using c2 by (simp add: g run_no_callback)
  next
    case (Inr pe)
    show ?thesis
    proof (cases pe)
      case None
      then show ?thesis
        using Inr c2
        by (simp add: g mount_def run_no_callback assign_scrollX_frame)
    next
      case (Some e)
      have cb: "transition_callbacks
          (assign_scrollX 0 (mount (Some e) (s2\<lparr>view_transitions := True\<rparr>))) = [e]"
        using c2 by (simp add: assign_scrollX_frame mount_def startViewTransition_def emit_def)
      have mc: "main_children
          (assign_scrollX 0 (mount (Some e) (s2\<lparr>view_transitions := True\<rparr>))) =
          main_children s2"
        by (simp add: assign_scrollX_frame mount_def startViewTransition_def emit_def)
      have with_vt: "main_children (run_transition_callbacks
          (assign_scrollX 0 (mount (Some e) (s2\<lparr>view_transitions := True\<rparr>)))) =
          (case main_children s2 of [] \<Rightarrow> [e] | currentPage # others \<Rightarrow> others @ [e])"
        by (simp only: run_one_callback [OF cb] mc)
      have without_vt: "main_children
          (assign_scrollX 0 (mount (Some e) (s2\<lparr>view_transitions := False\<rparr>))) =
          (case main_children s2 of [] \<Rightarrow> [e] | currentPage # others \<Rightarrow> others @ [e])"
        by (simp add: assign_scrollX_frame mount_def changePage_children)
      show ?thesis
        using Inr Some by (simp add: g with_vt without_vt)
    qed
  qed
qed

theorem swap_independent_of_transition_witness:
  "transition_callbacks
     (blank_page\<lparr>main_children := [\<lparr>elem_id = 0, tagName = ''menu-page'', productId = None\<rparr>],
                  next_elem := 1\<rparr>) = [] \<and>
   main_children (snd (go (\<lambda>x. Some 7) ''/order'' True
     (blank_page\<lparr>main_children := [\<lparr>elem_id = 0, tagName = ''menu-page'', productId = None\<rparr>],
                  next_elem := 1, view_transitions := False\<rparr>))) =
     [\<lparr>elem_id = 1, tagName = ''order-page'', productId = None\<rparr>] \<and>
   main_children (run_transition_callbacks (snd (go (\<lambda>x. Some 7) ''/order'' True
     (blank_page\<lparr>main_children := [\<lparr>elem_id = 0, tagName = ''menu-page'', productId = None\<rparr>],
                  next_elem := 1, view_transitions := True\<rparr>)))) =
     [\<lparr>elem_id = 1, tagName = ''order-page'', productId = None\<rparr>]"
proof -
  let ?s = "blank_page\<lparr>main_children := [\<lparr>elem_id = 0, tagName = ''menu-page'', productId = None\<rparr>],
                  next_elem := 1\<rparr>"
  have a: "transition_callbacks ?s = []"
    by (simp add: blank_page_def)
  have b: "main_children (snd (go (\<lambda>x. Some 7) ''/order'' True (?s\<lparr>view_transitions := False\<rparr>))) =
     [\<lparr>elem_id = 1, tagName = ''order-page'', productId = None\<rparr>]"
    by (simp add: go_steps url_accepted_known switch_order await_import_result
          await_import_frame push_entry_frame
          assign_scrollX_frame mount_def changePage_children createElement_def setMetadata_def
          emit_def blank_page_def)
  show ?thesis
    using a b swap_independent_of_transition [OF a, of "\<lambda>x. Some 7" "''/order''" True]
    by simp
qed

text \<open>
  C9. \<^verbatim>\<open>Router.go\<close> ends with \<^verbatim>\<open>window.scrollX = 0\<close>, which is meant to reset the
  horizontal scroll offset. The assignment gives the window an own property
  \<^verbatim>\<open>scrollX\<close> of value 0 and does not scroll: a window scrolled by 120 is still at 120
  after a navigation to \<^verbatim>\<open>/\<close>, before and after the swap, and after a navigation to
  an unroutable path.
\<close>

theorem scroll_offset_not_reset:
  "fst (go (\<lambda>x. Some 7) ''/'' True (blank_page\<lparr>scroll_left := 120\<rparr>)) = Fulfilled \<and>
   scroll_left (snd (go (\<lambda>x. Some 7) ''/'' True (blank_page\<lparr>scroll_left := 120\<rparr>))) = 120 \<and>
   scroll_left (run_transition_callbacks
      (snd (go (\<lambda>x. Some 7) ''/'' True (blank_page\<lparr>scroll_left := 120\<rparr>)))) = 120 \<and>
   scrollX_own (snd (go (\<lambda>x. Some 7) ''/'' True (blank_page\<lparr>scroll_left := 120\<rparr>))) = Some 0 \<and>
   scroll_left (snd (go (\<lambda>x. Some 7) ''/unknown'' True (blank_page\<lparr>scroll_left := 120\<rparr>))) = 120"
proof -
  have f: "fst (go (\<lambda>x. Some 7) ''/'' True (blank_page\<lparr>scroll_left := 120\<rparr>)) = Fulfilled"
    by (simp add: go_steps url_accepted_known switch_menu)
  have o: "scrollX_own (snd (go (\<lambda>x. Some 7) ''/'' True (blank_page\<lparr>scroll_left := 120\<rparr>))) = Some 0"
    by (simp add: go_steps url_accepted_known switch_menu assign_scrollX_frame)
  have c: "transition_callbacks (snd (go (\<lambda>x. Some 7) ''/'' True (blank_page\<lparr>scroll_left := 120\<rparr>))) = []"
    by (simp add: go_steps url_accepted_known switch_menu assign_scrollX_frame mount_def changePage_def
          setMetadata_def createElement_def push_entry_def emit_def blank_page_def)
  have r: "scroll_left (run_transition_callbacks s) = scroll_left s"
    if "transition_callbacks s = []" for s
    using that by (simp add: run_transition_callbacks_def)
  show ?thesis
    using f o r [OF c] by (simp add: go_scroll_left blank_page_def)
qed

text \<open>
  C6. The chrome is a fixed pair per view (\<^verbatim>\<open>Menu\<close> and \<^verbatim>\<open>#fff\<close>, \<^verbatim>\<open>Your Order\<close> and
  \<^verbatim>\<open>#f60\<close>, \<^verbatim>\<open>Product Details\<close> and \<^verbatim>\<open>#f0f\<close>), and on \<^verbatim>\<open>/order\<close> it is set
  after the awaited import has returned. On a \<^verbatim>\<open>/product-\<close> route the code calls
  \<^verbatim>\<open>Router.setMetadata\<close> before the import: in the trace of a navigation to
  \<^verbatim>\<open>/product-42\<close> the chrome update precedes the start of the load, and when the load
  fails the title and the theme colour are those of the details view while the display
  slot is unchanged.
\<close>

theorem details_chrome_before_load:
  "trace (snd (go (\<lambda>x. Some 7) ''/product-42'' True blank_page)) =
     [PushState ''/product-42'',
      SetMetadata ''Product Details'' ''#f0f'',
      FetchModule DetailsPage_js,
      ModuleSettled DetailsPage_js (Some 7),
      AwaitReturned DetailsPage_js (Some 7),
      CreateElement 0 ''details-page'',
      ChangePage 0,
      AssignScrollX] \<and>
   trace (snd (go (\<lambda>x. Some 7) ''/order'' True blank_page)) =
     [PushState ''/order'',
      FetchModule OrderPage_js,
      ModuleSettled OrderPage_js (Some 7),
      AwaitReturned OrderPage_js (Some 7),
      CreateElement 0 ''order-page'',
      SetMetadata ''Your Order'' ''#f60'',
      ChangePage 0,
      AssignScrollX] \<and>
   fst (go (\<lambda>x. None) ''/product-42'' True blank_page) = Rejected (ImportFailed DetailsPage_js) \<and>
   title (snd (go (\<lambda>x. None) ''/product-42'' True blank_page)) = ''Product Details - Coffee Shop'' \<and>
   theme_color (snd (go (\<lambda>x. None) ''/product-42'' True blank_page)) = ''#f0f'' \<and>
   main_children (snd (go (\<lambda>x. None) ''/product-42'' True blank_page)) = main_children blank_page"
proof -
  have p: "startsWith ''/product-42'' ''/product-''"
    by (simp add: startsWith_def)
  have bp: "module_map blank_page = Map.empty" "trace blank_page = []"
    "next_elem blank_page = 0" "view_transitions blank_page = False"
    by (simp_all add: blank_page_def)
  have ok_details: "trace (snd (go (\<lambda>x. Some 7) ''/product-42'' True blank_page)) =
     [PushState ''/product-42'', SetMetadata ''Product Details'' ''#f0f'',
      FetchModule DetailsPage_js, ModuleSettled DetailsPage_js (Some 7),
      AwaitReturned DetailsPage_js (Some 7), CreateElement 0 ''details-page'',
      ChangePage 0, AssignScrollX]"
    by (simp add: go_steps url_accepted_known(3) [OF p] switch_product [OF p] await_import_result await_import_trace
          await_import_frame push_entry_frame assign_scrollX_frame mount_trace
          setMetadata_def createElement_def emit_def bp)
  have ok_order: "trace (snd (go (\<lambda>x. Some 7) ''/order'' True blank_page)) =
     [PushState ''/order'', FetchModule OrderPage_js, ModuleSettled OrderPage_js (Some 7),
      AwaitReturned OrderPage_js (Some 7), CreateElement 0 ''order-page'',
      SetMetadata ''Your Order'' ''#f60'', ChangePage 0, AssignScrollX]"
    by (simp add: go_steps url_accepted_known switch_order await_import_result await_import_trace
          await_import_frame push_entry_frame assign_scrollX_frame mount_trace
          setMetadata_def createElement_def emit_def bp)
  have rej: "fst (go (\<lambda>x. None) ''/product-42'' True blank_page) =
     Rejected (ImportFailed DetailsPage_js)"
    by (simp add: go_steps url_accepted_known(3) [OF p] switch_product [OF p] await_import_result push_entry_frame
          setMetadata_def emit_def bp)
  have chrome: "title (snd (go (\<lambda>x. None) ''/product-42'' True blank_page)) =
       ''Product Details - Coffee Shop'' \<and>
     theme_color (snd (go (\<lambda>x. None) ''/product-42'' True blank_page)) = ''#f0f''"
    by (simp add: go_steps url_accepted_known(3) [OF p] switch_product [OF p] await_import_result await_import_frame
          push_entry_frame setMetadata_def emit_def bp)
  have slot: "main_children (snd (go (\<lambda>x. None) ''/product-42'' True blank_page)) =
     main_children blank_page"
    using go_rejected [OF rej] by simp
  show ?thesis using ok_details ok_order rej chrome slot by simp
qed

text \<open>
  C2. \<open>write(field, value)\<close> commits the value and then calls, before it returns, every
  handler registered for the matching kind, once each and in registration order. Each
  of these calls sees the state with the new value, and a read of the field after the
  write gives the written value.
\<close>

theorem write_commits_then_notifies:
  "read_store f (write_store f v st) = v \<and>
   app (write_store f v st) = app (commit f v st) \<and>
   deliveries (write_store f v st) =
     deliveries st @
     map (\<lambda>h. (h, kind_of f, app (write_store f v st))) (subscribers (kind_of f) st) \<and>
   map fst (drop (length (deliveries st)) (deliveries (write_store f v st))) =
     subscribers (kind_of f) st \<and>
   list_all (\<lambda>d. read_field f (snd (snd d)) = v)
     (drop (length (deliveries st)) (deliveries (write_store f v st)))"
proof -
  let ?st1 = "commit f v st"
  have subs: "subscribers k ?st1 = subscribers k st" for k
    by (simp add: subscribers_def commit_fields)
  have w: "write_store f v st = notify (kind_of f) (subscribers (kind_of f) st) ?st1"
    by (simp add: write_store_def Let_def subs)
  have a: "app (write_store f v st) = app ?st1"
    by (simp add: w notify_fields)
  have r: "read_store f (write_store f v st) = v"
    by (simp add: read_store_def a commit_fields)
  have d: "deliveries (write_store f v st) =
     deliveries st @
     map (\<lambda>h. (h, kind_of f, app (write_store f v st))) (subscribers (kind_of f) st)"
    by (simp add: a) (simp add: w notify_fields commit_fields)
  have o: "map fst (drop (length (deliveries st)) (deliveries (write_store f v st))) =
     subscribers (kind_of f) st"
    by (simp add: d comp_def)
  have s: "list_all (\<lambda>d. read_field f (snd (snd d)) = v)
     (drop (length (deliveries st)) (deliveries (write_store f v st)))"
    by (simp add: d list_all_iff a commit_fields)
  show ?thesis using r a d o s by blast
qed

theorem write_commits_then_notifies_witness:
  "read_store CartField (write_store CartField [5, 6] sample_store) = [5, 6] \<and>
   deliveries (write_store CartField [5, 6] sample_store) =
     [(1, CartChanged, \<lparr>menu = [], cart = [5, 6]\<rparr>),
      (3, CartChanged, \<lparr>menu = [], cart = [5, 6]\<rparr>)]"
proof -
  have s: "subscribers CartChanged sample_store = [1, 3]"
    by (simp add: subscribers_def sample_store_def)
  have a: "app (commit CartField [5, 6] sample_store) = \<lparr>menu = [], cart = [5, 6]\<rparr>"
    by (simp add: sample_store_def)
  have d: "deliveries sample_store = []"
    by (simp add: sample_store_def)
  show ?thesis
    using write_commits_then_notifies [of CartField "[5, 6]" sample_store] s a d
    by simp
qed

text \<open>
  C7. From a state where the trace agrees with the module map on \<open>spec\<close> (as at the
  start of the process), whatever calls of \<open>ensureLoaded\<close>, ends of loads, resumptions
  of waiting calls and whole navigations follow, in whatever order: the load of \<open>spec\<close>
  is started at most once; a waiting call goes on only after the end of that load, with
  the result of that load; the load has one result; the first call is the one that
  starts the load; and a second navigation to \<^verbatim>\<open>/order\<close> starts no load.
\<close>

theorem module_loaded_at_most_once:
  assumes "coalesced spec s"
  shows "coalesced spec (run loader steps s) \<and>
         count_list (trace (run loader steps s)) (FetchModule spec) \<le> 1 \<and>
         (\<forall>pre r post. trace (run loader steps s) = pre @ AwaitReturned spec r # post \<longrightarrow>
            ModuleSettled spec r \<in> set pre) \<and>
         (\<forall>r r'. ModuleSettled spec r \<in> set (trace (run loader steps s)) \<and>
                 ModuleSettled spec r' \<in> set (trace (run loader steps s)) \<longrightarrow> r = r') \<and>
         (module_map s spec = None \<longrightarrow>
            trace (step loader (Ensure spec) s) = trace s @ [FetchModule spec]) \<and>
         count_list
           (trace (snd (go loader ''/order'' b2 (snd (go loader ''/order'' b1 s))))) (FetchModule x) =
         count_list (trace (snd (go loader ''/order'' b1 s))) (FetchModule x)"
proof -
  have c: "coalesced spec (run loader steps s)"
    using assms by (rule coalesced_run)
  have first: "trace (step loader (Ensure spec) s) = trace s @ [FetchModule spec]"
    if "module_map s spec = None"
    using that by (simp add: import_request_def emit_def)
  show ?thesis
    using c coalesced_one_fetch [OF c] coalesced_await_after_settle [OF c]
      coalesced_one_result [OF c] first go_order_again [of loader b2 b1 s x]
    by blast
qed

theorem module_loaded_at_most_once_witness:
  "coalesced OrderPage_js blank_page \<and>
   trace (run (\<lambda>x. None)
          [Ensure OrderPage_js, Ensure OrderPage_js, Resume OrderPage_js,
           LoadEnds OrderPage_js (Some 7), Resume OrderPage_js, Resume OrderPage_js]
          blank_page) =
     [FetchModule OrderPage_js, ModuleSettled OrderPage_js (Some 7),
      AwaitReturned OrderPage_js (Some 7), AwaitReturned OrderPage_js (Some 7)] \<and>
   count_list (trace (run (\<lambda>x. None)
          [Ensure OrderPage_js, Ensure OrderPage_js, Resume OrderPage_js,
           LoadEnds OrderPage_js (Some 7), Resume OrderPage_js, Resume OrderPage_js]
          blank_page)) (FetchModule OrderPage_js) \<le> 1 \<and>
   module_map blank_page OrderPage_js = None \<and>
   trace (step (\<lambda>x. None) (Ensure OrderPage_js) blank_page) = [FetchModule OrderPage_js]"
proof -
  have c: "coalesced OrderPage_js blank_page"
    by (simp add: coalesced_def settled_def load_history_def blank_page_def)
  have t: "trace (run (\<lambda>x. None)
          [Ensure OrderPage_js, Ensure OrderPage_js, Resume OrderPage_js,
           LoadEnds OrderPage_js (Some 7), Resume OrderPage_js, Resume OrderPage_js]
          blank_page) =
     [FetchModule OrderPage_js, ModuleSettled OrderPage_js (Some 7),
      AwaitReturned OrderPage_js (Some 7), AwaitReturned OrderPage_js (Some 7)]"
    by (simp add: run_def import_request_def load_finished_def settled_def emit_def
          blank_page_def)
  have m: "module_map blank_page OrderPage_js = None" "trace blank_page = []"
    by (simp_all add: blank_page_def)
  note w = module_loaded_at_most_once [OF c, of "\<lambda>x. None"
      "[Ensure OrderPage_js, Ensure OrderPage_js, Resume OrderPage_js,
        LoadEnds OrderPage_js (Some 7), Resume OrderPage_js, Resume OrderPage_js]"
      True True OrderPage_js]
  have n: "count_list (trace (run (\<lambda>x. None)
          [Ensure OrderPage_js, Ensure OrderPage_js, Resume OrderPage_js,
           LoadEnds OrderPage_js (Some 7), Resume OrderPage_js, Resume OrderPage_js]
          blank_page)) (FetchModule OrderPage_js) \<le> 1"
    using w by blast
  have f: "trace (step (\<lambda>x. None) (Ensure OrderPage_js) blank_page) = [FetchModule OrderPage_js]"
    using w m by simp
  show ?thesis using c t n m(1) f by blast
qed

end
